theory Spec2Isabelle
  imports Complex_Main
begin

section \<open>Errors\<close>

text \<open>
  Every exception of the source is a value. \<open>ValueError\<close> is raised by the checks of
  \<open>modules.py\<close> itself (and by a failed tuple unpacking), \<open>TorchError\<close> stands for
  an exception raised inside a torch operation (a \<open>RuntimeError\<close> or \<open>IndexError\<close> of
  the library), \<open>IndexError\<close> is Python's list indexing out of range,
  \<open>AssertionError\<close> a failed \<open>assert\<close> and \<open>ZeroDivisionError\<close> a division by zero.
\<close>

datatype error = ValueError | TorchError | IndexError | AssertionError | ZeroDivisionError

section \<open>The span evaluator \<open>f1_score\<close>\<close>

text \<open>
  \<open>preds\<close> and \<open>targets\<close> are Python lists of list objects. The inner lists are
  mutated by \<open>append\<close>, so they live in a store: an inner list is an address and the
  heap maps every address to the list stored there.
\<close>

type_synonym addr = nat
type_synonym heap = "addr \<Rightarrow> int list"

text \<open>Python's \<open>xs[i]\<close>: a negative index counts from the end, out of range raises.\<close>

definition py_index :: "int list \<Rightarrow> int \<Rightarrow> error + int" where
  "py_index xs i =
     (if 0 \<le> i \<and> i < int (length xs) then Inr (xs ! nat i)
      else if i < 0 \<and> - int (length xs) \<le> i then Inr (xs ! nat (int (length xs) + i))
      else Inl IndexError)"

text \<open>
  The inner loop \<open>for comp_ind in range(stpt-1, endpt+1)\<close>: the result is the new
  value of \<open>neg_flag\<close>, set at the first index where the two lists differ.
\<close>

fun compare_span :: "int list \<Rightarrow> int list \<Rightarrow> bool \<Rightarrow> int list \<Rightarrow> error + bool" where
  "compare_span true pred neg_flag [] = Inr neg_flag"
| "compare_span true pred neg_flag (comp_ind # rest) =
     (case py_index true comp_ind of
        Inl e \<Rightarrow> Inl e
      | Inr t \<Rightarrow>
          (case py_index pred comp_ind of
             Inl e \<Rightarrow> Inl e
           | Inr p \<Rightarrow> if t \<noteq> p then Inr True else compare_span true pred neg_flag rest))"

record scan_state =
  stpt :: int
  endpt :: int
  entity_flag :: bool
  neg_flag :: bool
  TP :: nat
  FN :: nat
  FP :: nat

text \<open>The body of the first scan (gold spans, counting TP and FN) at position \<open>i\<close>.\<close>

definition pass1_step :: "int list \<Rightarrow> int list \<Rightarrow> nat \<Rightarrow> scan_state \<Rightarrow> error + scan_state" where
  "pass1_step pred true i s =
     (case py_index true (int i) of
        Inl e \<Rightarrow> Inl e
      | Inr tv \<Rightarrow>
          (let s1 = (if tv \<noteq> 0 \<and> \<not> entity_flag s
                     then s\<lparr>stpt := int i, entity_flag := True\<rparr> else s)
           in if tv = 0 \<and> entity_flag s1 then
                (let s2 = s1\<lparr>endpt := int i\<rparr>
                 in case compare_span true pred (neg_flag s2) [stpt s2 - 1 .. endpt s2] of
                      Inl e \<Rightarrow> Inl e
                    | Inr nf \<Rightarrow>
                        (let s3 = (if nf then s2\<lparr>FN := FN s2 + 1\<rparr> else s2\<lparr>TP := TP s2 + 1\<rparr>)
                         in Inr (s3\<lparr>entity_flag := False, neg_flag := False\<rparr>)))
              else Inr s1))"

text \<open>The body of the second scan (predicted spans, counting FP) at position \<open>i\<close>.\<close>

definition pass2_step :: "int list \<Rightarrow> int list \<Rightarrow> nat \<Rightarrow> scan_state \<Rightarrow> error + scan_state" where
  "pass2_step pred true i s =
     (case py_index pred (int i) of
        Inl e \<Rightarrow> Inl e
      | Inr pv \<Rightarrow>
          (let s1 = (if pv = 1 \<and> \<not> entity_flag s
                     then s\<lparr>stpt := int i, entity_flag := True\<rparr> else s)
           in if pv = 0 \<and> entity_flag s1 then
                (let s2 = s1\<lparr>endpt := int i\<rparr>
                 in case compare_span true pred (neg_flag s2) [stpt s2 - 1 .. endpt s2] of
                      Inl e \<Rightarrow> Inl e
                    | Inr nf \<Rightarrow>
                        (let s3 = (if nf then s2\<lparr>FP := FP s2 + 1\<rparr> else s2)
                         in Inr (s3\<lparr>entity_flag := False, neg_flag := False\<rparr>)))
              else Inr s1))"

text \<open>A \<open>for\<close> loop whose body may raise: the first error ends it.\<close>

fun for_loop :: "('i \<Rightarrow> 's \<Rightarrow> error + 's) \<Rightarrow> 'i list \<Rightarrow> 's \<Rightarrow> error + 's" where
  "for_loop body [] s = Inr s"
| "for_loop body (i # rest) s =
     (case body i s of Inl e \<Rightarrow> Inl e | Inr s' \<Rightarrow> for_loop body rest s')"

text \<open>
  Both scans of one pair of sequences, after the sentinel has been appended. The scan
  variables are reset at the start of the pair; the counts are carried over.
\<close>

definition scan_pair :: "int list \<Rightarrow> int list \<Rightarrow> nat \<times> nat \<times> nat \<Rightarrow> error + nat \<times> nat \<times> nat" where
  "scan_pair pred true counts =
     (case counts of (tp, fn, fp) \<Rightarrow>
        (let s0 = \<lparr>stpt = 0, endpt = 0, entity_flag = False, neg_flag = False,
                   TP = tp, FN = fn, FP = fp\<rparr>
         in case for_loop (pass1_step pred true) [0..<length pred] s0 of
              Inl e \<Rightarrow> Inl e
            | Inr s1 \<Rightarrow>
                (case for_loop (pass2_step pred true) [0..<length pred] s1 of
                   Inl e \<Rightarrow> Inl e
                 | Inr s2 \<Rightarrow> Inr (TP s2, FN s2, FP s2))))"

text \<open>
  The loop \<open>for pred, true in zip(preds, targets)\<close>. The assertion compares the
  lengths as they are in the store at that moment; the two \<open>append\<close>s follow one
  another, so a list object reached twice is extended twice. The heap is returned in
  every case: what was appended before an exception stays appended.
\<close>

fun scan_all :: "(addr \<times> addr) list \<Rightarrow> heap \<Rightarrow> nat \<times> nat \<times> nat \<Rightarrow> (error + nat \<times> nat \<times> nat) \<times> heap" where
  "scan_all [] h counts = (Inr counts, h)"
| "scan_all ((pred, true) # rest) h counts =
     (if length (h pred) \<noteq> length (h true) then (Inl AssertionError, h)
      else
        (let h1 = h(pred := h pred @ [0]);
             h2 = h1(true := h1 true @ [0])
         in case scan_pair (h2 pred) (h2 true) counts of
              Inl e \<Rightarrow> (Inl e, h2)
            | Inr counts' \<Rightarrow> scan_all rest h2 counts'))"

text \<open>
  The aggregation: \<open>TP/(TP + FP)\<close> and \<open>TP/(TP + FN)\<close> raise on a zero divisor,
  in this order. The tests that decide the exception and the zero convention are on
  integers; the quotients are taken over the reals, without the rounding of Python's
  floats.
\<close>

definition aggregate :: "nat \<times> nat \<times> nat \<Rightarrow> error + real" where
  "aggregate counts =
     (case counts of (tp, fn, fp) \<Rightarrow>
        if tp + fp = 0 then Inl ZeroDivisionError
        else
          (let precision = real tp / real (tp + fp)
           in if tp + fn = 0 then Inl ZeroDivisionError
              else
                (let recall = real tp / real (tp + fn)
                 in Inr (if precision \<noteq> 0 \<or> recall \<noteq> 0
                         then (2 * precision * recall) / (precision + recall) else 0))))"

text \<open>
  \<open>f1_score\<close>. Its first assertion, that both arguments are lists, holds by the types
  of the model. The result is the returned value or the exception, with the store as
  the call leaves it.
\<close>

definition f1_score :: "heap \<Rightarrow> addr list \<Rightarrow> addr list \<Rightarrow> (error + real) \<times> heap" where
  "f1_score h preds targets =
     (case scan_all (zip preds targets) h (0, 0, 0) of
        (Inl e, h') \<Rightarrow> (Inl e, h')
      | (Inr counts, h') \<Rightarrow> (aggregate counts, h'))"


text \<open>A heap holding the given lists at the addresses 0, 1, 2, ...\<close>

definition heap_of :: "int list list \<Rightarrow> heap" where
  "heap_of xss = (\<lambda>a. if a < length xss then xss ! a else [])"




section \<open>The CRF layer\<close>

text \<open>
  A tensor is its shape and its elements in row-major order; a well-formed tensor has
  as many elements as its shape says. The definitions of this section read the code
  over exact real arithmetic; the rounding of the float32 tensors is added in the
  subsection on the same code with rounding.
\<close>

record 'a tensor =
  shape :: "nat list"
  data :: "'a list"

definition tensor_ok :: "'a tensor \<Rightarrow> bool" where
  "tensor_ok t \<longleftrightarrow> length (data t) = prod_list (shape t)"

text \<open>Element \<open>[b, i]\<close> of a rank-2 tensor and element \<open>[b, i, j]\<close> of a rank-3 tensor.\<close>

definition at2 :: "'a tensor \<Rightarrow> nat \<Rightarrow> nat \<Rightarrow> 'a" where
  "at2 t b i = data t ! (b * (shape t ! 1) + i)"

definition at3 :: "'a tensor \<Rightarrow> nat \<Rightarrow> nat \<Rightarrow> nat \<Rightarrow> 'a" where
  "at3 t b i j = data t ! ((b * (shape t ! 1) + i) * (shape t ! 2) + j)"

text \<open>
  The module's parameters. \<open>__init__\<close> allocates \<open>transitions\<close> with shape
  \<open>[num_tags, num_tags]\<close> and the two boundary vectors with shape \<open>[num_tags]\<close>;
  their random initial values are not modelled, any values may be stored.
\<close>

record CRF =
  num_tags :: nat
  transitions :: "real list list"
  start_transitions :: "real list"
  stop_transitions :: "real list"

definition CRF_ok :: "CRF \<Rightarrow> bool" where
  "CRF_ok crf \<longleftrightarrow>
     0 < num_tags crf \<and>
     length (transitions crf) = num_tags crf \<and>
     list_all (\<lambda>row. length row = num_tags crf) (transitions crf) \<and>
     length (start_transitions crf) = num_tags crf \<and>
     length (stop_transitions crf) = num_tags crf"

text \<open>
  \<open>_log_sum_exp\<close> along one slice of the reduced dimension. The caller makes sure
  that the slice is not empty (torch's \<open>max\<close> raises on an empty dimension).
\<close>

definition log_sum_exp :: "real list \<Rightarrow> real" where
  "log_sum_exp logits =
     (let max_val = Max (set logits)
      in max_val + ln (\<Sum>x\<leftarrow>logits. exp (x - max_val)))"

text \<open>
  \<open>_sequence_score\<close>. \<open>gather\<close> accepts an index tensor no larger than \<open>feats\<close> in
  the first two dimensions and raises on an index outside \<open>[0, C)\<close>;
  \<open>unfold(1, 2, 1)\<close> raises when the sequence dimension is shorter than the window
  size 2; indexing the parameters raises on a tag that is not below \<open>num_tags\<close>. With
  tensors of other ranks one of \<open>gather\<close>, \<open>unfold\<close> and \<open>permute\<close> raises.
\<close>

definition sequence_score :: "CRF \<Rightarrow> real tensor \<Rightarrow> int tensor \<Rightarrow> error + real list" where
  "sequence_score crf feats tags =
     (case shape feats of
        [batch, seq_len, ntags] \<Rightarrow>
          (case shape tags of
             [batch_size, seq_size] \<Rightarrow>
               if \<not> (batch_size \<le> batch \<and> seq_size \<le> seq_len) then Inl TorchError
               else if \<exists>x\<in>set (data tags). x < 0 \<or> int ntags \<le> x then Inl TorchError
               else if seq_size < 2 then Inl TorchError
               else if \<exists>x\<in>set (data tags). int (num_tags crf) \<le> x then Inl TorchError
               else Inr (map (\<lambda>b.
                      let tag = (\<lambda>i. nat (at2 tags b i));
                          feat_score = (\<Sum>i\<leftarrow>[0..<seq_size]. at3 feats b i (tag i));
                          trans_score =
                            (\<Sum>i\<leftarrow>[0..<seq_size - 1]. transitions crf ! tag i ! tag (i + 1));
                          start_score = start_transitions crf ! tag 0;
                          stop_score = stop_transitions crf ! tag (seq_size - 1)
                      in feat_score + start_score + trans_score + stop_score) [0..<batch_size])
           | _ \<Rightarrow> Inl TorchError)
      | _ \<Rightarrow> Inl TorchError)"

text \<open>
  One iteration of the forward algorithm for one example: \<open>feat\<close> is the slice
  \<open>feats[b, i, :]\<close> as a function of the tag, \<open>a\<close> the vector of the previous step.
\<close>

definition forward_step :: "CRF \<Rightarrow> (nat \<Rightarrow> real) \<Rightarrow> real list \<Rightarrow> real list" where
  "forward_step crf feat a =
     map (\<lambda>j. log_sum_exp (map (\<lambda>i. a ! i + transitions crf ! i ! j + feat j)
                                [0..<num_tags crf]))
         [0..<num_tags crf]"

definition forward_finish :: "CRF \<Rightarrow> real list \<Rightarrow> real" where
  "forward_finish crf a =
     log_sum_exp (map (\<lambda>j. a ! j + stop_transitions crf ! j) [0..<num_tags crf])"

text \<open>
  \<open>_partition_function\<close>. Unpacking a shape that is not of rank 3 raises ValueError,
  \<open>feats[:, 0]\<close> raises on an empty sequence dimension.
\<close>

definition partition_function :: "CRF \<Rightarrow> real tensor \<Rightarrow> error + real list" where
  "partition_function crf feats =
     (case shape feats of
        [batch, seq_size, ntags] \<Rightarrow>
          if num_tags crf \<noteq> ntags then Inl ValueError
          else if seq_size = 0 then Inl TorchError
          else if ntags = 0 then Inl TorchError
          else Inr (map (\<lambda>b.
                 let a = map (\<lambda>j. at3 feats b 0 j + start_transitions crf ! j) [0..<ntags];
                     a' = fold (\<lambda>i. forward_step crf (at3 feats b i)) [1..<seq_size] a
                 in forward_finish crf a') [0..<batch])
      | _ \<Rightarrow> Inl ValueError)"

text \<open>
  torch's \<open>max\<close> along a dimension, on one slice: the maximal value and the index of
  its first occurrence.
\<close>

definition max_with_index :: "real list \<Rightarrow> real \<times> nat" where
  "max_with_index xs =
     (Max (set xs), length (takeWhile (\<lambda>x. x \<noteq> Max (set xs)) xs))"

text \<open>
  One iteration of the Viterbi loop for one example: the maxima over the previous tag,
  the back-pointers appended to \<open>paths\<close>, then the emission added.
\<close>

definition viterbi_step ::
  "CRF \<Rightarrow> (nat \<Rightarrow> real) \<Rightarrow> real list \<times> nat list list \<Rightarrow> real list \<times> nat list list" where
  "viterbi_step crf feat vp =
     (case vp of (v, paths) \<Rightarrow>
        (let m = map (\<lambda>j. max_with_index (map (\<lambda>i. v ! i + transitions crf ! i ! j)
                                               [0..<num_tags crf]))
                     [0..<num_tags crf];
             idx = map snd m
         in (map (\<lambda>j. fst (m ! j) + feat j) [0..<num_tags crf], paths @ [idx])))"

text \<open>The backtracking loop \<open>for idx in reversed(paths)\<close> and the final reversal.\<close>

fun backtrack_loop :: "nat list list \<Rightarrow> nat \<Rightarrow> nat list \<Rightarrow> nat list" where
  "backtrack_loop [] tag tags = tags"
| "backtrack_loop (idx # rest) tag tags = backtrack_loop rest (idx ! tag) (tags @ [idx ! tag])"

definition backtrack :: "nat list list \<Rightarrow> nat \<Rightarrow> nat list" where
  "backtrack paths tag = rev (backtrack_loop (rev paths) tag [tag])"

definition viterbi_finish :: "CRF \<Rightarrow> real list \<times> nat list list \<Rightarrow> nat list" where
  "viterbi_finish crf vp =
     (case vp of (v, paths) \<Rightarrow>
        (case max_with_index (map (\<lambda>j. v ! j + stop_transitions crf ! j) [0..<num_tags crf]) of
           (best, tag) \<Rightarrow> backtrack paths tag))"

text \<open>\<open>_viterbi\<close>: the decoded tags as a tensor of shape \<open>[batch, seq_size]\<close>.\<close>

definition viterbi :: "CRF \<Rightarrow> real tensor \<Rightarrow> error + int tensor" where
  "viterbi crf feats =
     (case shape feats of
        [batch, seq_size, ntags] \<Rightarrow>
          if num_tags crf \<noteq> ntags then Inl ValueError
          else if seq_size = 0 then Inl TorchError
          else if ntags = 0 then Inl TorchError
          else Inr \<lparr>shape = [batch, seq_size],
                    data = concat (map (\<lambda>b.
                      let v = map (\<lambda>j. at3 feats b 0 j + start_transitions crf ! j) [0..<ntags];
                          vp = fold (\<lambda>i. viterbi_step crf (at3 feats b i)) [1..<seq_size] (v, [])
                      in map int (viterbi_finish crf vp)) [0..<batch])\<rparr>
      | _ \<Rightarrow> Inl ValueError)"

definition forward :: "CRF \<Rightarrow> real tensor \<Rightarrow> error + int tensor" where
  "forward crf feats =
     (if length (shape feats) \<noteq> 3 then Inl ValueError else viterbi crf feats)"

text \<open>
  \<open>mean\<close> of a vector; \<open>None\<close> is the NaN that torch returns for an empty one.
\<close>

definition mean :: "real list \<Rightarrow> real option" where
  "mean xs = (if xs = [] then None else Some (sum_list xs / real (length xs)))"

definition loss :: "CRF \<Rightarrow> real tensor \<Rightarrow> int tensor \<Rightarrow> error + real option" where
  "loss crf feats tags =
     (if length (shape feats) \<noteq> 3 then Inl ValueError
      else if length (shape tags) \<noteq> 2 then Inl ValueError
      else if take 2 (shape feats) \<noteq> shape tags then Inl ValueError
      else
        (case sequence_score crf feats tags of
           Inl e \<Rightarrow> Inl e
         | Inr sequence_score_v \<Rightarrow>
             (case partition_function crf feats of
                Inl e \<Rightarrow> Inl e
              | Inr partition_function_v \<Rightarrow>
                  (let log_probability = map2 (-) sequence_score_v partition_function_v
                   in Inr (map_option uminus (mean log_probability))))))"

subsection \<open>The score of one tag path, for the proofs\<close>

text \<open>
  The score that a path collects after its first tag \<open>j\<close>: for every further position
  the transition into its tag and the emission of that tag, and at the end the stop
  potential. \<open>es\<close> holds the emission slices of the further positions.
\<close>

fun chain_score :: "CRF \<Rightarrow> nat \<Rightarrow> nat list \<Rightarrow> (nat \<Rightarrow> real) list \<Rightarrow> real" where
  "chain_score crf j [] es = stop_transitions crf ! j"
| "chain_score crf j (k # t) es =
     transitions crf ! j ! k + hd es k + chain_score crf k t (tl es)"

text \<open>Start potential, first emission and the chain after the first tag.\<close>

definition path_score :: "CRF \<Rightarrow> (nat \<Rightarrow> real) list \<Rightarrow> nat list \<Rightarrow> real" where
  "path_score crf es t =
     start_transitions crf ! hd t + hd es (hd t) + chain_score crf (hd t) (tl t) (tl es)"

text \<open>The emission slices \<open>feats[b, i, :]\<close> of example \<open>b\<close>, for \<open>i\<close> from \<open>lo\<close> below \<open>hi\<close>.\<close>

definition slices :: "real tensor \<Rightarrow> nat \<Rightarrow> nat \<Rightarrow> nat \<Rightarrow> (nat \<Rightarrow> real) list" where
  "slices feats b lo hi = map (at3 feats b) [lo..<hi]"

text \<open>The tag tensor of shape \<open>[batch, length t]\<close> whose every row is the path \<open>t\<close>.\<close>

definition tile :: "nat \<Rightarrow> nat list \<Rightarrow> int tensor" where
  "tile batch t = \<lparr>shape = [batch, length t], data = concat (replicate batch (map int t))\<rparr>"

text \<open>The path that \<open>_viterbi\<close> decodes for example \<open>b\<close> of a batch of sequence length \<open>L\<close>.\<close>

definition viterbi_path :: "CRF \<Rightarrow> real tensor \<Rightarrow> nat \<Rightarrow> nat \<Rightarrow> nat list" where
  "viterbi_path crf feats b L =
     viterbi_finish crf (fold (viterbi_step crf) (slices feats b 1 L)
        (map (\<lambda>j. at3 feats b 0 j + start_transitions crf ! j) [0..<num_tags crf], []))"

text \<open>
  The score of section 4.2 of the specification for example \<open>b\<close> and the tag path
  \<open>t\<close>, written from its words: the emission term, the transition term over the
  consecutive pairs, and the two boundary terms.
\<close>

definition sequence_score_spec :: "CRF \<Rightarrow> real tensor \<Rightarrow> nat \<Rightarrow> nat list \<Rightarrow> real" where
  "sequence_score_spec crf feats b t =
     (\<Sum>i\<leftarrow>[0..<length t]. at3 feats b i (t ! i)) +
     (\<Sum>i\<leftarrow>[0..<length t - 1]. transitions crf ! (t ! i) ! (t ! (i + 1))) +
     start_transitions crf ! (t ! 0) +
     stop_transitions crf ! (t ! (length t - 1))"

text \<open>The tags of example \<open>b\<close> in a tag tensor of shape \<open>[batch, L]\<close>.\<close>

definition tag_row :: "int tensor \<Rightarrow> nat \<Rightarrow> nat list" where
  "tag_row tags b = map (\<lambda>i. nat (at2 tags b i)) [0..<shape tags ! 1]"

subsection \<open>Example parameters and inputs\<close>

definition example_crf :: CRF where
  "example_crf = \<lparr>num_tags = 2, transitions = [[0, 1], [2, 0]],
                   start_transitions = [0, 1], stop_transitions = [1, 0]\<rparr>"

text \<open>One example of two positions, and one example of a single position.\<close>

definition example_feats :: "real tensor" where
  "example_feats = \<lparr>shape = [1, 2, 2], data = [1, 0, 0, 3]\<rparr>"

definition single_feats :: "real tensor" where
  "single_feats = \<lparr>shape = [1, 1, 2], data = [1, 0]\<rparr>"

subsection \<open>The constructor\<close>

text \<open>
  \<open>torch.Tensor(rows, cols)\<close> allocates a matrix without initialising it: \<open>mem\<close>
  gives what the memory holds. A negative size raises (a RuntimeError of torch).
\<close>

definition torch_Tensor :: "int \<Rightarrow> int \<Rightarrow> (nat \<Rightarrow> nat \<Rightarrow> real) \<Rightarrow> error + real list list" where
  "torch_Tensor rows cols mem =
     (if rows < 0 \<or> cols < 0 then Inl TorchError
      else Inr (map (\<lambda>i. map (\<lambda>j. mem i j) [0..<nat cols]) [0..<nat rows]))"

text \<open>
  \<open>torch.randn(n)\<close>: a vector of \<open>n\<close> standard-normal draws, given by \<open>draw\<close>; a
  negative size raises.
\<close>

definition torch_randn :: "int \<Rightarrow> (nat \<Rightarrow> real) \<Rightarrow> error + real list" where
  "torch_randn n draw = (if n < 0 then Inl TorchError else Inr (map draw [0..<nat n]))"

text \<open>
  \<open>nn.init.xavier_normal_\<close> on a matrix of the given size, with the default gain
  \<open>1.0\<close>: \<open>fan_in\<close> is the number of columns, \<open>fan_out\<close> the number of rows, and
  \<open>std = gain * math.sqrt(2.0 / float(fan_in + fan_out))\<close> is a Python division,
  which raises ZeroDivisionError for the empty matrix. The matrix is then filled with
  normal draws of mean \<open>0\<close> and deviation \<open>std\<close>; \<open>draw\<close> gives the standard-normal
  draws.
\<close>

definition xavier_normal :: "nat \<Rightarrow> nat \<Rightarrow> (nat \<Rightarrow> nat \<Rightarrow> real) \<Rightarrow> error + real list list" where
  "xavier_normal rows cols draw =
     (let fan_in = cols; fan_out = rows
      in if fan_in + fan_out = 0 then Inl ZeroDivisionError
         else
           (let std = 1 * sqrt (2 / real (fan_in + fan_out))
            in Inr (map (\<lambda>i. map (\<lambda>j. 0 + std * draw i j) [0..<cols]) [0..<rows])))"

text \<open>
  \<open>CRF.__init__\<close>: the uninitialised matrix, the two random vectors, then the
  Xavier initialisation of the matrix. \<open>num_tags\<close> is a Python integer. The arguments
  after it stand for the memory contents and the random draws of the run.
\<close>

definition CRF_init ::
  "int \<Rightarrow> (nat \<Rightarrow> nat \<Rightarrow> real) \<Rightarrow> (nat \<Rightarrow> real) \<Rightarrow> (nat \<Rightarrow> real) \<Rightarrow> (nat \<Rightarrow> nat \<Rightarrow> real)
     \<Rightarrow> error + CRF" where
  "CRF_init n mem draw_start draw_stop draw_xavier =
     (case torch_Tensor n n mem of
        Inl e \<Rightarrow> Inl e
      | Inr uninitialised \<Rightarrow>
          (case torch_randn n draw_start of
             Inl e \<Rightarrow> Inl e
           | Inr start \<Rightarrow>
               (case torch_randn n draw_stop of
                  Inl e \<Rightarrow> Inl e
                | Inr stop \<Rightarrow>
                    (case xavier_normal (nat n) (nat n) draw_xavier of
                       Inl e \<Rightarrow> Inl e
                     | Inr initialised \<Rightarrow>
                         Inr \<lparr>num_tags = nat n, transitions = initialised,
                              start_transitions = start, stop_transitions = stop\<rparr>))))"

subsection \<open>The same code with rounding\<close>

text \<open>
  The definitions above read the code over exact real arithmetic. The tensors of the
  program hold float32 numbers and every arithmetic operation on them rounds its
  result. The definitions below are the same code with the rounding \<open>rnd\<close> applied
  after every operation, in the order in which the source performs them: with the
  identity for \<open>rnd\<close> they are the definitions above (lemmas \<open>sequence_score_fp_exact\<close>,
  \<open>partition_function_fp_exact\<close>, \<open>viterbi_fp_exact\<close>, \<open>forward_fp_exact\<close>), with
  \<open>round32\<close> they are the program on float32 tensors.
\<close>

text \<open>Rounding to the nearest integer, a tie going to the even one.\<close>

definition round_half_even :: "real \<Rightarrow> int" where
  "round_half_even x =
     (let f = \<lfloor>x\<rfloor>; d = x - of_int f
      in if d < 1 / 2 then f else if 1 / 2 < d then f + 1 else if even f then f else f + 1)"

definition pow2 :: "int \<Rightarrow> real" where
  "pow2 e = (if 0 \<le> e then 2 ^ nat e else 1 / 2 ^ nat (- e))"

text \<open>
  The exponent \<open>e\<close> with \<open>2^e \<le> a < 2^(e+1)\<close>, searched upwards from a start
  exponent with at most \<open>n\<close> steps.
\<close>

fun binade :: "nat \<Rightarrow> real \<Rightarrow> int \<Rightarrow> int" where
  "binade 0 a e = e"
| "binade (Suc n) a e = (if 2 * pow2 e \<le> a then binade n a (e + 1) else e)"

text \<open>
  Rounding of a real number to binary32, to nearest with ties to even: 24 significant
  bits, the spacing of the subnormal numbers below \<open>2^(-126)\<close>. A result of magnitude
  \<open>2^128\<close> or more stands for an overflow (float32 gives an infinity there, which the
  model does not have); no computation below comes near it.
\<close>

definition round32 :: "real \<Rightarrow> real" where
  "round32 x =
     (let e = (if 1 \<le> \<bar>x\<bar> then binade 128 \<bar>x\<bar> 0 else binade 126 \<bar>x\<bar> (- 126));
          ulp = pow2 (e - 23)
      in of_int (round_half_even (x / ulp)) * ulp)"

text \<open>
  \<open>sum\<close> along a dimension, accumulated from left to right. torch may add a longer
  row in another order; for rows of one or two numbers every order gives this result.
\<close>

definition fsum :: "(real \<Rightarrow> real) \<Rightarrow> real list \<Rightarrow> real" where
  "fsum rnd xs = foldl (\<lambda>acc x. rnd (acc + x)) 0 xs"

text \<open>
  \<open>_sequence_score\<close>: the two sums, then
  \<open>feat_score + start_score + trans_score + stop_score\<close> from left to right.
\<close>

definition sequence_score_fp ::
  "(real \<Rightarrow> real) \<Rightarrow> CRF \<Rightarrow> real tensor \<Rightarrow> int tensor \<Rightarrow> error + real list" where
  "sequence_score_fp rnd crf feats tags =
     (case shape feats of
        [batch, seq_len, ntags] \<Rightarrow>
          (case shape tags of
             [batch_size, seq_size] \<Rightarrow>
               if \<not> (batch_size \<le> batch \<and> seq_size \<le> seq_len) then Inl TorchError
               else if \<exists>x\<in>set (data tags). x < 0 \<or> int ntags \<le> x then Inl TorchError
               else if seq_size < 2 then Inl TorchError
               else if \<exists>x\<in>set (data tags). int (num_tags crf) \<le> x then Inl TorchError
               else Inr (map (\<lambda>b.
                      let tag = (\<lambda>i. nat (at2 tags b i));
                          feat_score = fsum rnd (map (\<lambda>i. at3 feats b i (tag i)) [0..<seq_size]);
                          trans_score =
                            fsum rnd (map (\<lambda>i. transitions crf ! tag i ! tag (i + 1))
                                          [0..<seq_size - 1]);
                          start_score = start_transitions crf ! tag 0;
                          stop_score = stop_transitions crf ! tag (seq_size - 1)
                      in rnd (rnd (rnd (feat_score + start_score) + trans_score) + stop_score))
                    [0..<batch_size])
           | _ \<Rightarrow> Inl TorchError)
      | _ \<Rightarrow> Inl TorchError)"

text \<open>
  \<open>_log_sum_exp\<close>: the subtraction, \<open>exp\<close>, the sum, \<open>log\<close> and the final addition
  each round. torch's \<open>exp\<close> and \<open>log\<close> are taken as correctly rounded; they are exact
  at the arguments \<open>0\<close> and \<open>1\<close>, the only ones used below.
\<close>

definition log_sum_exp_fp :: "(real \<Rightarrow> real) \<Rightarrow> real list \<Rightarrow> real" where
  "log_sum_exp_fp rnd logits =
     (let max_val = Max (set logits)
      in rnd (max_val + rnd (ln (fsum rnd (map (\<lambda>x. rnd (exp (rnd (x - max_val)))) logits)))))"

text \<open>\<open>a.unsqueeze(-1) + transitions + feat\<close> adds from left to right.\<close>

definition forward_step_fp :: "(real \<Rightarrow> real) \<Rightarrow> CRF \<Rightarrow> (nat \<Rightarrow> real) \<Rightarrow> real list \<Rightarrow> real list" where
  "forward_step_fp rnd crf feat a =
     map (\<lambda>j. log_sum_exp_fp rnd
                 (map (\<lambda>i. rnd (rnd (a ! i + transitions crf ! i ! j) + feat j))
                      [0..<num_tags crf]))
         [0..<num_tags crf]"

definition forward_finish_fp :: "(real \<Rightarrow> real) \<Rightarrow> CRF \<Rightarrow> real list \<Rightarrow> real" where
  "forward_finish_fp rnd crf a =
     log_sum_exp_fp rnd (map (\<lambda>j. rnd (a ! j + stop_transitions crf ! j)) [0..<num_tags crf])"

definition partition_function_fp ::
  "(real \<Rightarrow> real) \<Rightarrow> CRF \<Rightarrow> real tensor \<Rightarrow> error + real list" where
  "partition_function_fp rnd crf feats =
     (case shape feats of
        [batch, seq_size, ntags] \<Rightarrow>
          if num_tags crf \<noteq> ntags then Inl ValueError
          else if seq_size = 0 then Inl TorchError
          else if ntags = 0 then Inl TorchError
          else Inr (map (\<lambda>b.
                 let a = map (\<lambda>j. rnd (at3 feats b 0 j + start_transitions crf ! j)) [0..<ntags];
                     a' = fold (\<lambda>i. forward_step_fp rnd crf (at3 feats b i)) [1..<seq_size] a
                 in forward_finish_fp rnd crf a') [0..<batch])
      | _ \<Rightarrow> Inl ValueError)"

text \<open>
  The Viterbi loop: \<open>v.unsqueeze(-1) + transitions\<close>, the exact maximum, then
  \<open>v + feat\<close>; at the end \<open>v + stop_transitions\<close>.
\<close>

definition viterbi_step_fp ::
  "(real \<Rightarrow> real) \<Rightarrow> CRF \<Rightarrow> (nat \<Rightarrow> real) \<Rightarrow> real list \<times> nat list list
     \<Rightarrow> real list \<times> nat list list" where
  "viterbi_step_fp rnd crf feat vp =
     (case vp of (v, paths) \<Rightarrow>
        (let m = map (\<lambda>j. max_with_index (map (\<lambda>i. rnd (v ! i + transitions crf ! i ! j))
                                               [0..<num_tags crf]))
                     [0..<num_tags crf];
             idx = map snd m
         in (map (\<lambda>j. rnd (fst (m ! j) + feat j)) [0..<num_tags crf], paths @ [idx])))"

definition viterbi_finish_fp :: "(real \<Rightarrow> real) \<Rightarrow> CRF \<Rightarrow> real list \<times> nat list list \<Rightarrow> nat list" where
  "viterbi_finish_fp rnd crf vp =
     (case vp of (v, paths) \<Rightarrow>
        (case max_with_index (map (\<lambda>j. rnd (v ! j + stop_transitions crf ! j))
                                  [0..<num_tags crf]) of
           (best, tag) \<Rightarrow> backtrack paths tag))"

definition viterbi_fp :: "(real \<Rightarrow> real) \<Rightarrow> CRF \<Rightarrow> real tensor \<Rightarrow> error + int tensor" where
  "viterbi_fp rnd crf feats =
     (case shape feats of
        [batch, seq_size, ntags] \<Rightarrow>
          if num_tags crf \<noteq> ntags then Inl ValueError
          else if seq_size = 0 then Inl TorchError
          else if ntags = 0 then Inl TorchError
          else Inr \<lparr>shape = [batch, seq_size],
                    data = concat (map (\<lambda>b.
                      let v = map (\<lambda>j. rnd (at3 feats b 0 j + start_transitions crf ! j)) [0..<ntags];
                          vp = fold (\<lambda>i. viterbi_step_fp rnd crf (at3 feats b i)) [1..<seq_size] (v, [])
                      in map int (viterbi_finish_fp rnd crf vp)) [0..<batch])\<rparr>
      | _ \<Rightarrow> Inl ValueError)"

definition forward_fp :: "(real \<Rightarrow> real) \<Rightarrow> CRF \<Rightarrow> real tensor \<Rightarrow> error + int tensor" where
  "forward_fp rnd crf feats =
     (if length (shape feats) \<noteq> 3 then Inl ValueError else viterbi_fp rnd crf feats)"

text \<open>
  Parameters and emissions that float32 represents exactly, for two tags and for one
  tag.
\<close>

definition float32_crf :: CRF where
  "float32_crf = \<lparr>num_tags = 2, transitions = [[0, - 1000000], [- 1000000, 0]],
                   start_transitions = [- 1, 0], stop_transitions = [0, 0]\<rparr>"

definition float32_feats :: "real tensor" where
  "float32_feats = \<lparr>shape = [1, 2, 2], data = [16777218, 16777218, 1, 0]\<rparr>"

definition float32_crf1 :: CRF where
  "float32_crf1 = \<lparr>num_tags = 1, transitions = [[0]],
                    start_transitions = [- 1], stop_transitions = [0]\<rparr>"

definition float32_feats1 :: "real tensor" where
  "float32_feats1 = \<lparr>shape = [1, 2, 1], data = [16777218, 1]\<rparr>"

section \<open>Properties of the span evaluator\<close>


















text \<open>
  C8. The aggregation does not guard its divisions. When the scan of the batch returns
  counts with \<open>TP + FP = 0\<close> or \<open>TP + FN = 0\<close>, \<open>f1_score\<close> raises
  ZeroDivisionError and returns no value. Otherwise it returns a value, which is
  \<open>0\<close> when \<open>TP = 0\<close> (precision and recall both zero, the only zero convention of
  the code) and \<open>2 * precision * recall / (precision + recall)\<close> when \<open>TP > 0\<close>.
\<close>

theorem f1_score_division_unguarded:
  assumes "fst (scan_all (zip preds targets) h (0, 0, 0)) = Inr (tp, fn, fp)"
  shows "(tp + fp = 0 \<or> tp + fn = 0 \<longrightarrow>
            fst (f1_score h preds targets) = Inl ZeroDivisionError) \<and>
         (0 < tp + fp \<and> 0 < tp + fn \<longrightarrow>
            fst (f1_score h preds targets) =
              Inr (if tp = 0 then 0
                   else 2 * (real tp / real (tp + fp)) * (real tp / real (tp + fn))
                        / (real tp / real (tp + fp) + real tp / real (tp + fn))))"
proof -
  obtain r h' where r: "scan_all (zip preds targets) h (0, 0, 0) = (r, h')"
    by (cases "scan_all (zip preds targets) h (0, 0, 0)") auto
  with assms have "r = Inr (tp, fn, fp)" by simp
  with r have f: "fst (f1_score h preds targets) = aggregate (tp, fn, fp)"
    by (simp add: f1_score_def)
  show ?thesis
    unfolding f by (auto simp: aggregate_def Let_def)
qed

theorem f1_score_division_unguarded_witness:
  "fst (scan_all (zip [0] [1]) (heap_of [[0, 0, 0], [0, 0, 0]]) (0, 0, 0)) = Inr (0, 0, 0) \<and>
   fst (f1_score (heap_of [[0, 0, 0], [0, 0, 0]]) [0] [1]) = Inl ZeroDivisionError \<and>
   fst (scan_all (zip [0] [1]) (heap_of [[0, 1, 0, 0, 0], [0, 1, 1, 0, 0]]) (0, 0, 0)) = Inr (0, 1, 1) \<and>
   fst (f1_score (heap_of [[0, 1, 0, 0, 0], [0, 1, 1, 0, 0]]) [0] [1]) = Inr 0 \<and>
   fst (scan_all (zip [0, 2] [1, 3]) (heap_of [[2, 1], [0, 0], [1], [1]]) (0, 0, 0)) = Inr (1, 0, 1) \<and>
   fst (f1_score (heap_of [[2, 1], [0, 0], [1], [1]]) [0, 2] [1, 3]) = Inr (2 / 3)"
proof -
  have a: "fst (scan_all (zip [0] [1]) (heap_of [[0, 0, 0], [0, 0, 0]]) (0, 0, 0)) = Inr (0, 0, 0)"
    by code_simp
  have b: "fst (scan_all (zip [0] [1]) (heap_of [[0, 1, 0, 0, 0], [0, 1, 1, 0, 0]]) (0, 0, 0))
             = Inr (0, 1, 1)"
    by code_simp
  have c: "fst (scan_all (zip [0, 2] [1, 3]) (heap_of [[2, 1], [0, 0], [1], [1]]) (0, 0, 0))
             = Inr (1, 0, 1)"
    by code_simp
  show ?thesis
    using a b c f1_score_division_unguarded[OF a] f1_score_division_unguarded[OF b]
      f1_score_division_unguarded[OF c]
    by simp
qed







section \<open>Properties of the CRF layer\<close>

subsection \<open>The forward algorithm sums over all paths\<close>

lemma sum_list_exp_pos:
  fixes f :: "'a \<Rightarrow> real"
  shows "xs \<noteq> [] \<Longrightarrow> 0 < (\<Sum>x\<leftarrow>xs. exp (f x))"
proof (induction xs)
  case Nil
  then show ?case by simp
next
  case (Cons x xs)
  have "0 \<le> (\<Sum>x\<leftarrow>xs. exp (f x))" by (rule sum_list_nonneg) auto
  then show ?case by (simp add: add_pos_nonneg)
qed

lemma exp_log_sum_exp:
  assumes "xs \<noteq> []"
  shows "exp (log_sum_exp xs) = (\<Sum>x\<leftarrow>xs. exp x)"
proof -
  define m where "m = Max (set xs)"
  have pos: "0 < (\<Sum>x\<leftarrow>xs. exp x)" using sum_list_exp_pos[OF assms, of "\<lambda>x. x"] by simp
  have "(\<Sum>x\<leftarrow>xs. exp (x - m)) = (\<Sum>x\<leftarrow>xs. exp x * exp (- m))"
    by (simp add: exp_diff exp_minus divide_inverse)
  also have "\<dots> = (\<Sum>x\<leftarrow>xs. exp x) * exp (- m)"
    by (simp add: sum_list_mult_const)
  finally have s: "(\<Sum>x\<leftarrow>xs. exp (x - m)) = (\<Sum>x\<leftarrow>xs. exp x) * exp (- m)" .
  have "0 < (\<Sum>x\<leftarrow>xs. exp x) * exp (- m)" using pos by simp
  then have "exp (m + ln ((\<Sum>x\<leftarrow>xs. exp x) * exp (- m))) = exp m * ((\<Sum>x\<leftarrow>xs. exp x) * exp (- m))"
    by (simp add: exp_add)
  also have "\<dots> = (\<Sum>x\<leftarrow>xs. exp x)"
    by (simp add: exp_minus)
  finally show ?thesis
    by (simp add: log_sum_exp_def Let_def m_def[symmetric] s)
qed

lemma exp_forward_step:
  assumes "0 < num_tags crf" "j < num_tags crf"
  shows "exp (forward_step crf feat a ! j) =
           (\<Sum>i\<leftarrow>[0..<num_tags crf]. exp (a ! i + transitions crf ! i ! j + feat j))"
  using assms by (simp add: forward_step_def exp_log_sum_exp comp_def)

lemma exp_forward_finish:
  assumes "0 < num_tags crf"
  shows "exp (forward_finish crf a) =
           (\<Sum>j\<leftarrow>[0..<num_tags crf]. exp (a ! j + stop_transitions crf ! j))"
  using assms by (simp add: forward_finish_def exp_log_sum_exp comp_def)

lemma sum_list_concat_real:
  fixes xss :: "real list list"
  shows "sum_list (concat xss) = (\<Sum>xs\<leftarrow>xss. sum_list xs)"
  by (induction xss) simp_all

lemma sum_list_n_lists_Suc:
  fixes f :: "'b list \<Rightarrow> real"
  shows "(\<Sum>t\<leftarrow>List.n_lists (Suc n) xs. f t) = (\<Sum>t\<leftarrow>List.n_lists n xs. \<Sum>k\<leftarrow>xs. f (k # t))"
  by (simp add: map_concat sum_list_concat_real comp_def)

lemma forward_fold_sum:
  assumes "0 < num_tags crf"
  shows "exp (forward_finish crf (fold (forward_step crf) es a)) =
           (\<Sum>t\<leftarrow>List.n_lists (length es) [0..<num_tags crf].
              \<Sum>j\<leftarrow>[0..<num_tags crf]. exp (a ! j + chain_score crf j t es))"
proof (induction es arbitrary: a)
  case Nil
  show ?case using assms by (simp add: exp_forward_finish)
next
  case (Cons e es)
  let ?C = "num_tags crf"
  let ?a' = "forward_step crf e a"
  have "(\<Sum>t\<leftarrow>List.n_lists (length (e # es)) [0..<?C].
              \<Sum>j\<leftarrow>[0..<?C]. exp (a ! j + chain_score crf j t (e # es)))
      = (\<Sum>t\<leftarrow>List.n_lists (length es) [0..<?C]. \<Sum>k\<leftarrow>[0..<?C].
              \<Sum>j\<leftarrow>[0..<?C]. exp (a ! j + chain_score crf j (k # t) (e # es)))"
    by (simp only: length_Cons sum_list_n_lists_Suc)
  also have "\<dots> = (\<Sum>t\<leftarrow>List.n_lists (length es) [0..<?C]. \<Sum>k\<leftarrow>[0..<?C].
              exp (?a' ! k + chain_score crf k t es))"
  proof -
    have "(\<Sum>j\<leftarrow>[0..<?C]. exp (a ! j + chain_score crf j (k # t) (e # es)))
            = exp (?a' ! k + chain_score crf k t es)" if "k \<in> set [0..<?C]" for k t
    proof -
      have "(\<Sum>j\<leftarrow>[0..<?C]. exp (a ! j + chain_score crf j (k # t) (e # es)))
          = (\<Sum>j\<leftarrow>[0..<?C]. exp (a ! j + transitions crf ! j ! k + e k) * exp (chain_score crf k t es))"
        by (simp add: exp_add algebra_simps)
      also have "\<dots> = (\<Sum>j\<leftarrow>[0..<?C]. exp (a ! j + transitions crf ! j ! k + e k))
                        * exp (chain_score crf k t es)"
        by (simp add: sum_list_mult_const)
      also have "\<dots> = exp (?a' ! k) * exp (chain_score crf k t es)"
        using that assms by (simp add: exp_forward_step)
      finally show ?thesis by (simp add: exp_add)
    qed
    then show ?thesis
      by (intro arg_cong[where f=sum_list] map_cong refl) 
  qed
  also have "\<dots> = exp (forward_finish crf (fold (forward_step crf) es ?a'))"
    by (simp add: Cons.IH)
  finally show ?case by simp
qed


lemma chain_score_sums:
  assumes "lo < hi"
  shows "chain_score crf (tag lo) (map tag [Suc lo..<hi]) (map feat [Suc lo..<hi]) =
           (\<Sum>i\<leftarrow>[Suc lo..<hi]. feat i (tag i)) +
           (\<Sum>i\<leftarrow>[lo..<hi - 1]. transitions crf ! tag i ! tag (i + 1)) +
           stop_transitions crf ! tag (hi - 1)"
  using assms
proof (induction "hi - Suc lo" arbitrary: lo)
  case 0
  then have "hi = Suc lo" by simp
  then show ?case by simp
next
  case (Suc n)
  then have lt: "Suc lo < hi" by simp
  have ih: "chain_score crf (tag (Suc lo)) (map tag [Suc (Suc lo)..<hi]) (map feat [Suc (Suc lo)..<hi]) =
           (\<Sum>i\<leftarrow>[Suc (Suc lo)..<hi]. feat i (tag i)) +
           (\<Sum>i\<leftarrow>[Suc lo..<hi - 1]. transitions crf ! tag i ! tag (i + 1)) +
           stop_transitions crf ! tag (hi - 1)"
    using Suc.hyps(1)[of "Suc lo"] Suc.hyps(2) lt by simp
  have a: "[Suc lo..<hi] = Suc lo # [Suc (Suc lo)..<hi]" using lt by (simp add: upt_conv_Cons)
  have b: "[lo..<hi - 1] = lo # [Suc lo..<hi - 1]" using lt by (simp add: upt_conv_Cons)
  show ?case unfolding a b by (simp add: ih)
qed

lemma score_sums_path_score:
  assumes "0 < L"
  shows "(\<Sum>i\<leftarrow>[0..<L]. feat i (tag i)) + start_transitions crf ! tag 0 +
           (\<Sum>i\<leftarrow>[0..<L - 1]. transitions crf ! tag i ! tag (i + 1)) +
           stop_transitions crf ! tag (L - 1)
         = path_score crf (map feat [0..<L]) (map tag [0..<L])"
proof -
  have a: "[0..<L] = 0 # [Suc 0..<L]" using assms by (simp add: upt_conv_Cons)
  have "path_score crf (map feat [0..<L]) (map tag [0..<L]) =
          start_transitions crf ! tag 0 + feat 0 (tag 0) +
          chain_score crf (tag 0) (map tag [Suc 0..<L]) (map feat [Suc 0..<L])"
  proof -
    have "map feat [0..<L] = feat 0 # map feat [Suc 0..<L]"
      "map tag [0..<L] = tag 0 # map tag [Suc 0..<L]"
      by (subst a, simp)+
    then show ?thesis by (simp add: path_score_def)
  qed
  also have "\<dots> = start_transitions crf ! tag 0 + feat 0 (tag 0) +
          ((\<Sum>i\<leftarrow>[Suc 0..<L]. feat i (tag i)) +
           (\<Sum>i\<leftarrow>[0..<L - 1]. transitions crf ! tag i ! tag (i + 1)) +
           stop_transitions crf ! tag (L - 1))"
    by (simp only: chain_score_sums[OF assms])
  also have "\<dots> = (\<Sum>i\<leftarrow>[0..<L]. feat i (tag i)) + start_transitions crf ! tag 0 +
           (\<Sum>i\<leftarrow>[0..<L - 1]. transitions crf ! tag i ! tag (i + 1)) +
           stop_transitions crf ! tag (L - 1)"
  proof -
    have "(\<Sum>i\<leftarrow>[0..<L]. feat i (tag i)) = feat 0 (tag 0) + (\<Sum>i\<leftarrow>[Suc 0..<L]. feat i (tag i))"
      by (subst a) simp
    then show ?thesis by simp
  qed
  finally show ?thesis by simp
qed

lemma forward_path_sum:
  assumes "0 < num_tags crf"
  shows "exp (forward_finish crf (fold (forward_step crf) es
                 (map (\<lambda>j. e j + start_transitions crf ! j) [0..<num_tags crf]))) =
           (\<Sum>t\<leftarrow>List.n_lists (Suc (length es)) [0..<num_tags crf]. exp (path_score crf (e # es) t))"
proof -
  let ?C = "num_tags crf"
  let ?a = "map (\<lambda>j. e j + start_transitions crf ! j) [0..<?C]"
  have "(\<Sum>j\<leftarrow>[0..<?C]. exp (?a ! j + chain_score crf j t es))
          = (\<Sum>j\<leftarrow>[0..<?C]. exp (path_score crf (e # es) (j # t)))" for t
    by (intro arg_cong[where f=sum_list] map_cong refl) (simp add: path_score_def)
  then show ?thesis
    by (simp only: forward_fold_sum[OF assms] sum_list_n_lists_Suc)
qed

lemma sum_list_n_lists_pos:
  assumes "0 < C"
  shows "0 < (\<Sum>t\<leftarrow>List.n_lists n [0..<C]. exp (f t :: real))"
proof -
  have "length (List.n_lists n [0..<C]) = C ^ n" by (simp add: length_n_lists)
  then have "List.n_lists n [0..<C] \<noteq> []" using assms by auto
  then show ?thesis by (rule sum_list_exp_pos)
qed

lemma forward_ln_path_sum:
  assumes "0 < num_tags crf"
  shows "forward_finish crf (fold (forward_step crf) es
                 (map (\<lambda>j. e j + start_transitions crf ! j) [0..<num_tags crf])) =
           ln (\<Sum>t\<leftarrow>List.n_lists (Suc (length es)) [0..<num_tags crf]. exp (path_score crf (e # es) t))"
  using forward_path_sum[OF assms, of es e, symmetric] by simp

lemma member_le_sum_list_real:
  fixes xs :: "real list"
  assumes "\<forall>x\<in>set xs. 0 \<le> x" "y \<in> set xs"
  shows "y \<le> sum_list xs"
  using assms
proof (induction xs)
  case Nil
  then show ?case by simp
next
  case (Cons x xs)
  have nn: "0 \<le> sum_list xs" using Cons.prems(1) by (intro sum_list_nonneg) simp
  show ?case
  proof (cases "y = x")
    case True
    with nn show ?thesis by simp
  next
    case False
    with Cons have "y \<le> sum_list xs" by simp
    moreover have "0 \<le> x" using Cons.prems(1) by simp
    ultimately show ?thesis by simp
  qed
qed

subsection \<open>The Viterbi loop keeps a best path\<close>

lemma length_takeWhile_less_ex:
  "\<exists>x\<in>set xs. \<not> P x \<Longrightarrow> length (takeWhile P xs) < length xs"
  by (induction xs) auto

lemma max_with_index_props:
  assumes "xs \<noteq> []"
  shows "snd (max_with_index xs) < length xs"
    and "xs ! snd (max_with_index xs) = fst (max_with_index xs)"
    and "\<forall>x\<in>set xs. x \<le> fst (max_with_index xs)"
proof -
  let ?m = "Max (set xs)"
  have mem: "?m \<in> set xs" using assms by (intro Max_in) auto
  then have ex: "\<exists>x\<in>set xs. \<not> x \<noteq> ?m" by auto
  show "snd (max_with_index xs) < length xs"
    unfolding max_with_index_def snd_conv using ex by (rule length_takeWhile_less_ex)
  then show "xs ! snd (max_with_index xs) = fst (max_with_index xs)"
    unfolding max_with_index_def snd_conv fst_conv
    using nth_length_takeWhile[of "\<lambda>x. x \<noteq> ?m" xs] by simp
  show "\<forall>x\<in>set xs. x \<le> fst (max_with_index xs)"
    by (simp add: max_with_index_def)
qed

lemma backtrack_loop_acc:
  "backtrack_loop ps tag (acc @ tags) = acc @ backtrack_loop ps tag tags"
  by (induction ps arbitrary: tag tags) simp_all

lemma backtrack_Nil: "backtrack [] tag = [tag]"
  by (simp add: backtrack_def)

lemma backtrack_snoc: "backtrack (paths @ [idx]) tag = backtrack paths (idx ! tag) @ [tag]"
proof -
  have "backtrack_loop (rev paths) (idx ! tag) ([tag] @ [idx ! tag])
          = [tag] @ backtrack_loop (rev paths) (idx ! tag) [idx ! tag]"
    by (rule backtrack_loop_acc)
  then show ?thesis by (simp add: backtrack_def)
qed

lemma length_backtrack: "length (backtrack paths tag) = Suc (length paths)"
  by (induction paths arbitrary: tag rule: rev_induct) (simp_all add: backtrack_Nil backtrack_snoc)

lemma backtrack_append:
  "backtrack (ps @ qs) tag = backtrack ps (hd (backtrack qs tag)) @ tl (backtrack qs tag)"
proof (induction qs arbitrary: tag rule: rev_induct)
  case Nil
  show ?case by (simp add: backtrack_Nil)
next
  case (snoc idx qs)
  have ne: "backtrack qs (idx ! tag) \<noteq> []"
    using length_backtrack[of qs "idx ! tag"] by auto
  have "backtrack (ps @ qs @ [idx]) tag = backtrack (ps @ qs) (idx ! tag) @ [tag]"
    using backtrack_snoc[of "ps @ qs" idx tag] by simp
  with snoc[of "idx ! tag"] ne show ?case
    by (simp add: backtrack_snoc)
qed


lemma viterbi_step_unfold:
  "viterbi_step crf e (v, paths) =
     (map (\<lambda>j. fst (max_with_index (map (\<lambda>i. v ! i + transitions crf ! i ! j) [0..<num_tags crf])) + e j)
          [0..<num_tags crf],
      paths @ [map (\<lambda>j. snd (max_with_index (map (\<lambda>i. v ! i + transitions crf ! i ! j) [0..<num_tags crf])))
                   [0..<num_tags crf]])"
  by (simp add: viterbi_step_def Let_def)

lemma viterbi_fold_optimal:
  assumes C: "0 < num_tags crf"
  shows "\<exists>q. viterbi_finish crf (fold (viterbi_step crf) es (v, paths))
                = backtrack paths (hd q) @ tl q \<and>
             length q = Suc (length es) \<and> (\<forall>x\<in>set q. x < num_tags crf) \<and>
             (\<forall>j t. j < num_tags crf \<longrightarrow> length t = length es \<longrightarrow>
                    (\<forall>x\<in>set t. x < num_tags crf) \<longrightarrow>
                    v ! j + chain_score crf j t es
                      \<le> v ! hd q + chain_score crf (hd q) (tl q) es)"
proof (induction es arbitrary: v paths)
  case Nil
  let ?xs = "map (\<lambda>j. v ! j + stop_transitions crf ! j) [0..<num_tags crf]"
  let ?tag = "snd (max_with_index ?xs)"
  have ne: "?xs \<noteq> []" using C by simp
  have tag: "?tag < num_tags crf" using max_with_index_props(1)[OF ne] by simp
  have best: "fst (max_with_index ?xs) = v ! ?tag + stop_transitions crf ! ?tag"
    using max_with_index_props(2)[OF ne] tag by simp
  have le: "v ! j + stop_transitions crf ! j \<le> v ! ?tag + stop_transitions crf ! ?tag"
    if "j < num_tags crf" for j
  proof -
    have "?xs ! j \<in> set ?xs" using that by (intro nth_mem) simp
    then have "?xs ! j \<le> fst (max_with_index ?xs)"
      using max_with_index_props(3)[OF ne] by blast
    then show ?thesis using that best by simp
  qed
  have fin: "viterbi_finish crf (fold (viterbi_step crf) [] (v, paths)) = backtrack paths ?tag"
    by (simp add: viterbi_finish_def split: prod.splits)
  show ?case
  proof (intro exI[of _ "[?tag]"] conjI allI impI)
    show "viterbi_finish crf (fold (viterbi_step crf) [] (v, paths))
            = backtrack paths (hd [?tag]) @ tl [?tag]"
      using fin by simp
    show "length [?tag] = Suc (length [])" by simp
    show "\<forall>x\<in>set [?tag]. x < num_tags crf" using tag by simp
    fix j and t :: "nat list"
    assume "j < num_tags crf" "length t = length ([] :: (nat \<Rightarrow> real) list)"
    then show "v ! j + chain_score crf j t [] \<le> v ! hd [?tag] + chain_score crf (hd [?tag]) (tl [?tag]) []"
      using le by simp
  qed
next
  case (Cons e es)
  let ?C = "num_tags crf"
  let ?cand = "\<lambda>j. map (\<lambda>i. v ! i + transitions crf ! i ! j) [0..<?C]"
  let ?v1 = "map (\<lambda>j. fst (max_with_index (?cand j)) + e j) [0..<?C]"
  let ?idx = "map (\<lambda>j. snd (max_with_index (?cand j))) [0..<?C]"
  have ne: "?cand j \<noteq> []" for j using C by simp
  have step: "fold (viterbi_step crf) (e # es) (v, paths)
                = fold (viterbi_step crf) es (?v1, paths @ [?idx])"
    by (simp add: viterbi_step_unfold)
  from Cons.IH[of ?v1 "paths @ [?idx]"] obtain q1 where
    q1: "viterbi_finish crf (fold (viterbi_step crf) es (?v1, paths @ [?idx]))
           = backtrack (paths @ [?idx]) (hd q1) @ tl q1"
    and len: "length q1 = Suc (length es)"
    and rng: "\<forall>x\<in>set q1. x < ?C"
    and opt: "\<And>j t. j < ?C \<Longrightarrow> length t = length es \<Longrightarrow> (\<forall>x\<in>set t. x < ?C) \<Longrightarrow>
               ?v1 ! j + chain_score crf j t es \<le> ?v1 ! hd q1 + chain_score crf (hd q1) (tl q1) es"
    by blast
  have q1ne: "q1 \<noteq> []" using len by auto
  then have q1split: "q1 = hd q1 # tl q1" by simp
  have h1: "hd q1 < ?C" using rng q1ne by (simp add: hd_in_set)
  let ?p = "?idx ! hd q1"
  have p_eq: "?p = snd (max_with_index (?cand (hd q1)))" using h1 by simp
  have p_lt: "?p < ?C"
    using max_with_index_props(1)[OF ne, of "hd q1"] p_eq by simp
  have v1_at: "?v1 ! k = fst (max_with_index (?cand k)) + e k" if "k < ?C" for k
    using that by simp
  have best: "fst (max_with_index (?cand (hd q1))) = v ! ?p + transitions crf ! ?p ! hd q1"
    using max_with_index_props(2)[OF ne, of "hd q1"] p_lt p_eq by simp
  have cand_le: "v ! j + transitions crf ! j ! k \<le> fst (max_with_index (?cand k))"
    if "j < ?C" for j k
  proof -
    have "?cand k ! j \<in> set (?cand k)" using that by (intro nth_mem) simp
    then have "?cand k ! j \<le> fst (max_with_index (?cand k))"
      using max_with_index_props(3)[OF ne, of k] by blast
    then show ?thesis using that by simp
  qed
  show ?case
  proof (intro exI[of _ "?p # q1"] conjI allI impI)
    have "backtrack (paths @ [?idx]) (hd q1) @ tl q1 = backtrack paths ?p @ q1"
      using q1split by (simp add: backtrack_snoc)
    then show "viterbi_finish crf (fold (viterbi_step crf) (e # es) (v, paths))
            = backtrack paths (hd (?p # q1)) @ tl (?p # q1)"
      using step q1 by simp
    show "length (?p # q1) = Suc (length (e # es))" using len by simp
    show "\<forall>x\<in>set (?p # q1). x < ?C" using rng p_lt by simp
    fix j and t :: "nat list"
    assume j: "j < ?C" and lt: "length t = length (e # es)" and tr: "\<forall>x\<in>set t. x < ?C"
    from lt obtain k t' where t: "t = k # t'" and lt': "length t' = length es"
      by (cases t) auto
    from tr t have k: "k < ?C" and tr': "\<forall>x\<in>set t'. x < ?C" by auto
    have "v ! j + chain_score crf j t (e # es)
            = (v ! j + transitions crf ! j ! k) + e k + chain_score crf k t' es"
      by (simp add: t)
    also have "\<dots> \<le> ?v1 ! k + chain_score crf k t' es"
      using cand_le[OF j, of k] v1_at[OF k] by simp
    also have "\<dots> \<le> ?v1 ! hd q1 + chain_score crf (hd q1) (tl q1) es"
      by (rule opt[OF k lt' tr'])
    also have "\<dots> = v ! ?p + chain_score crf ?p q1 (e # es)"
      using v1_at[OF h1] best by (subst (3) q1split) simp
    finally show "v ! j + chain_score crf j t (e # es)
            \<le> v ! hd (?p # q1) + chain_score crf (hd (?p # q1)) (tl (?p # q1)) (e # es)"
      by simp
  qed
qed


lemma viterbi_row_optimal:
  assumes C: "0 < num_tags crf"
  shows "\<exists>p. viterbi_finish crf (fold (viterbi_step crf) es
                   (map (\<lambda>j. e j + start_transitions crf ! j) [0..<num_tags crf], [])) = p \<and>
             length p = Suc (length es) \<and> (\<forall>x\<in>set p. x < num_tags crf) \<and>
             (\<forall>t. length t = Suc (length es) \<longrightarrow> (\<forall>x\<in>set t. x < num_tags crf) \<longrightarrow>
                    path_score crf (e # es) t \<le> path_score crf (e # es) p)"
proof -
  let ?C = "num_tags crf"
  let ?v = "map (\<lambda>j. e j + start_transitions crf ! j) [0..<?C]"
  from viterbi_fold_optimal[OF C, of es ?v "[]"] obtain q where
    q: "viterbi_finish crf (fold (viterbi_step crf) es (?v, [])) = backtrack [] (hd q) @ tl q"
    and len: "length q = Suc (length es)"
    and rng: "\<forall>x\<in>set q. x < ?C"
    and opt: "\<And>j t. j < ?C \<Longrightarrow> length t = length es \<Longrightarrow> (\<forall>x\<in>set t. x < ?C) \<Longrightarrow>
               ?v ! j + chain_score crf j t es \<le> ?v ! hd q + chain_score crf (hd q) (tl q) es"
    by blast
  have qne: "q \<noteq> []" using len by auto
  have hq: "hd q < ?C" using rng qne by (simp add: hd_in_set)
  have res: "viterbi_finish crf (fold (viterbi_step crf) es (?v, [])) = q"
    using q qne by (simp add: backtrack_Nil)
  have ps: "path_score crf (e # es) (j # t) = ?v ! j + chain_score crf j t es"
    if "j < ?C" for j t
    using that by (simp add: path_score_def)
  have "path_score crf (e # es) t \<le> path_score crf (e # es) q"
    if lt: "length t = Suc (length es)" and tr: "\<forall>x\<in>set t. x < ?C" for t
  proof -
    from lt obtain j t' where t: "t = j # t'" and lt': "length t' = length es"
      by (cases t) auto
    from tr t have j: "j < ?C" and tr': "\<forall>x\<in>set t'. x < ?C" by auto
    have "path_score crf (e # es) t = ?v ! j + chain_score crf j t' es"
      unfolding t by (rule ps[OF j])
    also have "\<dots> \<le> ?v ! hd q + chain_score crf (hd q) (tl q) es"
      by (rule opt[OF j lt' tr'])
    also have "\<dots> = path_score crf (e # es) (hd q # tl q)"
      by (rule ps[OF hq, symmetric])
    finally show ?thesis using qne by simp
  qed
  with res len rng show ?thesis by blast
qed

subsection \<open>Tensors as flat lists\<close>

lemma length_concat_rect:
  assumes "\<forall>b<B. length (f b) = L"
  shows "length (concat (map f [0..<B])) = B * L"
  using assms by (induction B) simp_all

lemma concat_nth_rect:
  assumes "\<forall>b<B. length (f b) = L" "b < B" "i < L"
  shows "concat (map f [0..<B]) ! (b * L + i) = f b ! i"
  using assms
proof (induction B)
  case 0
  then show ?case by simp
next
  case (Suc B)
  have len: "length (concat (map f [0..<B])) = B * L"
    using Suc.prems(1) by (intro length_concat_rect) simp
  show ?case
  proof (cases "b < B")
    case True
    then have "b * L + i < B * L"
    proof -
      have "b * L + i < b * L + L" using Suc.prems(3) by simp
      also have "\<dots> = Suc b * L" by simp
      also have "\<dots> \<le> B * L" using True by (intro mult_le_mono1) simp
      finally show ?thesis .
    qed
    with True Suc show ?thesis by (simp add: nth_append len)
  next
    case False
    with Suc.prems(2) have "b = B" by simp
    then show ?thesis by (simp add: nth_append len)
  qed
qed


lemma at2_in_data:
  assumes "tensor_ok tags" "shape tags = [B, L]" "b < B" "i < L"
  shows "at2 tags b i \<in> set (data tags)"
proof -
  have "b * L + i < b * L + L" using assms(4) by simp
  also have "\<dots> = Suc b * L" by simp
  also have "\<dots> \<le> B * L" using assms(3) by (intro mult_le_mono1) simp
  finally have "b * L + i < length (data tags)"
    using assms(1,2) by (simp add: tensor_ok_def)
  then show ?thesis using assms(2) by (simp add: at2_def)
qed

subsection \<open>The operations on tensors\<close>

lemma sequence_score_value:
  assumes "shape feats = [B, L, C]" "shape tags = [B, L]" "2 \<le> L"
    and "\<forall>x\<in>set (data tags). 0 \<le> x \<and> x < int C \<and> x < int (num_tags crf)"
  shows "sequence_score crf feats tags =
           Inr (map (\<lambda>b. path_score crf (slices feats b 0 L)
                             (map (\<lambda>i. nat (at2 tags b i)) [0..<L])) [0..<B])"
proof -
  have L: "0 < L" using assms(3) by simp
  have a: "\<not> (\<exists>x\<in>set (data tags). x < 0 \<or> int C \<le> x)" using assms(4) by auto
  have b: "\<not> (\<exists>x\<in>set (data tags). int (num_tags crf) \<le> x)" using assms(4) by auto
  have c: "\<not> L < 2" using assms(3) by simp
  have eq: "(\<Sum>i\<leftarrow>[0..<L]. at3 feats b i (nat (at2 tags b i))) +
              start_transitions crf ! nat (at2 tags b 0) +
              (\<Sum>i\<leftarrow>[0..<L - 1]. transitions crf ! nat (at2 tags b i) ! nat (at2 tags b (i + 1))) +
              stop_transitions crf ! nat (at2 tags b (L - 1))
            = path_score crf (slices feats b 0 L) (map (\<lambda>i. nat (at2 tags b i)) [0..<L])" for b
    using score_sums_path_score[OF L, of "at3 feats b" "\<lambda>i. nat (at2 tags b i)" crf]
    by (simp only: slices_def)
  show ?thesis
    unfolding sequence_score_def assms(1,2)
    by (simp only: list.case if_not_P a b c Let_def le_refl simp_thms if_False eq)
qed

lemma sequence_score_InrD:
  assumes "sequence_score crf feats tags = Inr s" "shape feats = [B, L, C]" "shape tags = [B, L]"
  shows "2 \<le> L" and "\<forall>x\<in>set (data tags). 0 \<le> x \<and> x < int C \<and> x < int (num_tags crf)"
  using assms by (auto simp: sequence_score_def split: if_splits)

lemma slices_Cons: "lo < hi \<Longrightarrow> slices feats b lo hi = at3 feats b lo # slices feats b (Suc lo) hi"
  by (simp add: slices_def upt_conv_Cons)

lemma length_slices: "length (slices feats b lo hi) = hi - lo"
  by (simp add: slices_def)

lemma partition_function_value:
  assumes "0 < num_tags crf" "shape feats = [B, L, num_tags crf]" "0 < L"
  shows "partition_function crf feats =
           Inr (map (\<lambda>b. ln (\<Sum>t\<leftarrow>List.n_lists L [0..<num_tags crf].
                                 exp (path_score crf (slices feats b 0 L) t))) [0..<B])"
proof -
  have fm: "fold (\<lambda>i. forward_step crf (at3 feats b i)) [Suc 0..<L] a
              = fold (forward_step crf) (slices feats b (Suc 0) L) a" for b a
    by (simp add: slices_def fold_map comp_def)
  have "forward_finish crf (fold (forward_step crf) (slices feats b 1 L)
            (map (\<lambda>j. at3 feats b 0 j + start_transitions crf ! j) [0..<num_tags crf]))
        = ln (\<Sum>t\<leftarrow>List.n_lists L [0..<num_tags crf]. exp (path_score crf (slices feats b 0 L) t))"
    for b
    using forward_ln_path_sum[OF assms(1), of "slices feats b 1 L" "at3 feats b 0"] assms(3)
    by (simp add: length_slices slices_Cons[of 0 L] del: n_lists.simps)
  then show ?thesis
    using assms by (simp add: partition_function_def fm Let_def del: n_lists.simps)
qed

lemma viterbi_value:
  assumes "0 < num_tags crf" "shape feats = [B, L, num_tags crf]" "0 < L"
  shows "viterbi crf feats =
           Inr \<lparr>shape = [B, L],
                data = concat (map (\<lambda>b. map int (viterbi_path crf feats b L)) [0..<B])\<rparr>"
proof -
  have fm: "fold (\<lambda>i. viterbi_step crf (at3 feats b i)) [Suc 0..<L] vp
              = fold (viterbi_step crf) (slices feats b (Suc 0) L) vp" for b vp
    by (simp add: slices_def fold_map comp_def)
  show ?thesis
    using assms by (simp add: viterbi_def fm Let_def viterbi_path_def)
qed

lemma viterbi_path_optimal:
  assumes "0 < num_tags crf" "0 < L"
  shows "length (viterbi_path crf feats b L) = L"
    and "\<forall>x\<in>set (viterbi_path crf feats b L). x < num_tags crf"
    and "length t = L \<Longrightarrow> \<forall>x\<in>set t. x < num_tags crf \<Longrightarrow>
           path_score crf (slices feats b 0 L) t
             \<le> path_score crf (slices feats b 0 L) (viterbi_path crf feats b L)"
proof -
  have sl: "slices feats b 0 L = at3 feats b 0 # slices feats b 1 L"
    using assms(2) slices_Cons[of 0 L feats b] by simp
  have len: "Suc (length (slices feats b 1 L)) = L" using assms(2) by (simp add: length_slices)
  from viterbi_row_optimal[OF assms(1), of "slices feats b 1 L" "at3 feats b 0"]
  have p: "length (viterbi_path crf feats b L) = L \<and>
           (\<forall>x\<in>set (viterbi_path crf feats b L). x < num_tags crf) \<and>
           (\<forall>t. length t = L \<longrightarrow> (\<forall>x\<in>set t. x < num_tags crf) \<longrightarrow>
                  path_score crf (slices feats b 0 L) t
                    \<le> path_score crf (slices feats b 0 L) (viterbi_path crf feats b L))"
    unfolding viterbi_path_def[symmetric] sl[symmetric] len by blast
  from p show "length (viterbi_path crf feats b L) = L" by blast
  from p show "\<forall>x\<in>set (viterbi_path crf feats b L). x < num_tags crf" by blast
  from p show "length t = L \<Longrightarrow> \<forall>x\<in>set t. x < num_tags crf \<Longrightarrow>
           path_score crf (slices feats b 0 L) t
             \<le> path_score crf (slices feats b 0 L) (viterbi_path crf feats b L)" by blast
qed

lemma tag_row_in_range:
  assumes "tensor_ok tags" "shape tags = [B, L]" "b < B"
    and "\<forall>x\<in>set (data tags). 0 \<le> x \<and> x < int C"
  shows "length (tag_row tags b) = L" and "\<forall>x\<in>set (tag_row tags b). x < C"
proof -
  show "length (tag_row tags b) = L" using assms(2) by (simp add: tag_row_def)
  have "nat (at2 tags b i) < C" if "i < L" for i
  proof -
    have "at2 tags b i \<in> set (data tags)" by (rule at2_in_data[OF assms(1,2,3) that])
    with assms(4) show ?thesis by auto
  qed
  then show "\<forall>x\<in>set (tag_row tags b). x < C" using assms(2) by (auto simp: tag_row_def)
qed

lemma sequence_score_nth:
  assumes "sequence_score crf feats tags = Inr s" "shape feats = [B, L, C]" "shape tags = [B, L]"
  shows "length s = B" and "b < B \<Longrightarrow> s ! b = path_score crf (slices feats b 0 L) (tag_row tags b)"
proof -
  note d = sequence_score_InrD[OF assms]
  have s: "s = map (\<lambda>b. path_score crf (slices feats b 0 L)
                             (map (\<lambda>i. nat (at2 tags b i)) [0..<L])) [0..<B]"
    using sequence_score_value[OF assms(2,3) d] assms(1) by simp
  show "length s = B" by (simp add: s)
  show "b < B \<Longrightarrow> s ! b = path_score crf (slices feats b 0 L) (tag_row tags b)"
    using assms(3) by (simp add: s tag_row_def)
qed

lemma viterbi_output:
  assumes "0 < num_tags crf" "shape feats = [B, L, num_tags crf]" "0 < L"
  shows "\<exists>out. viterbi crf feats = Inr out \<and> shape out = [B, L] \<and> tensor_ok out \<and>
           (\<forall>x\<in>set (data out). 0 \<le> x \<and> x < int (num_tags crf)) \<and>
           (\<forall>b<B. tag_row out b = viterbi_path crf feats b L)"
proof -
  let ?f = "\<lambda>b. map int (viterbi_path crf feats b L)"
  let ?out = "\<lparr>shape = [B, L], data = concat (map ?f [0..<B])\<rparr> :: int tensor"
  have len: "\<forall>b<B. length (?f b) = L"
    by (simp add: viterbi_path_optimal(1)[OF assms(1,3)])
  have ok: "tensor_ok ?out"
    using length_concat_rect[OF len] by (simp add: tensor_ok_def)
  have rng: "\<forall>x\<in>set (data ?out). 0 \<le> x \<and> x < int (num_tags crf)"
    using viterbi_path_optimal(2)[OF assms(1,3), of feats] by auto
  have row: "tag_row ?out b = viterbi_path crf feats b L" if "b < B" for b
  proof (rule nth_equalityI)
    show "length (tag_row ?out b) = length (viterbi_path crf feats b L)"
      by (simp add: tag_row_def viterbi_path_optimal(1)[OF assms(1,3)])
    fix i assume "i < length (tag_row ?out b)"
    then have i: "i < L" by (simp add: tag_row_def)
    have "at2 ?out b i = ?f b ! i"
      using concat_nth_rect[OF len that i] by (simp add: at2_def)
    then show "tag_row ?out b ! i = viterbi_path crf feats b L ! i"
      using i by (simp add: tag_row_def viterbi_path_optimal(1)[OF assms(1,3)])
  qed
  show ?thesis
    using viterbi_value[OF assms] ok rng row by (intro exI[of _ ?out]) simp
qed

lemma path_score_le_ln_sum:
  assumes "0 < C" "length t = L" "\<forall>x\<in>set t. x < C"
  shows "path_score crf es t \<le> ln (\<Sum>t\<leftarrow>List.n_lists L [0..<C]. exp (path_score crf es t))"
proof -
  have "t \<in> set (List.n_lists L [0..<C])"
    unfolding set_n_lists using assms(2,3) by auto
  then have "exp (path_score crf es t) \<in> (\<lambda>t. exp (path_score crf es t)) ` set (List.n_lists L [0..<C])"
    by (rule imageI)
  then have "exp (path_score crf es t) \<in> set (map (\<lambda>t. exp (path_score crf es t)) (List.n_lists L [0..<C]))"
    by (simp only: set_map)
  then have "exp (path_score crf es t) \<le> (\<Sum>t\<leftarrow>List.n_lists L [0..<C]. exp (path_score crf es t))"
    by (intro member_le_sum_list_real) (auto simp del: n_lists.simps)
  then have "ln (exp (path_score crf es t)) \<le> ln (\<Sum>t\<leftarrow>List.n_lists L [0..<C]. exp (path_score crf es t))"
    by (intro ln_mono) (simp_all del: n_lists.simps add: sum_list_n_lists_pos[OF assms(1)])
  then show ?thesis by simp
qed

lemma map2_nth:
  assumes "length xs = n" "length ys = n"
  shows "map2 f xs ys = map (\<lambda>i. f (xs ! i) (ys ! i)) [0..<n]"
  using assms by (intro nth_equalityI) simp_all

lemma partition_function_length:
  assumes "partition_function crf feats = Inr z" "shape feats = [B, L, C]"
  shows "length z = B"
  using assms by (auto simp: partition_function_def Let_def split: if_splits)

subsection \<open>The code with rounding\<close>

lemma fsum_id: "fsum (\<lambda>x. x) xs = sum_list xs"
proof -
  have "foldl (\<lambda>acc x. acc + x) a xs = a + sum_list xs" for a :: real
    by (induction xs arbitrary: a) simp_all
  then show ?thesis by (simp add: fsum_def)
qed

lemma sequence_score_fp_exact: "sequence_score_fp (\<lambda>x. x) = sequence_score"
  by (intro ext) (simp add: sequence_score_fp_def sequence_score_def fsum_id Let_def cong: list.case_cong if_cong)

lemma log_sum_exp_fp_exact: "log_sum_exp_fp (\<lambda>x. x) = log_sum_exp"
  by (intro ext) (simp add: log_sum_exp_fp_def log_sum_exp_def fsum_id Let_def)

lemma partition_function_fp_exact: "partition_function_fp (\<lambda>x. x) = partition_function"
proof -
  have a: "forward_step_fp (\<lambda>x. x) = forward_step"
    by (intro ext) (simp add: forward_step_fp_def forward_step_def log_sum_exp_fp_exact)
  have b: "forward_finish_fp (\<lambda>x. x) = forward_finish"
    by (intro ext) (simp add: forward_finish_fp_def forward_finish_def log_sum_exp_fp_exact)
  show ?thesis
    unfolding partition_function_fp_def partition_function_def a b by (intro ext refl)
qed

lemma viterbi_fp_exact: "viterbi_fp (\<lambda>x. x) = viterbi"
proof -
  have a: "viterbi_step_fp (\<lambda>x. x) = viterbi_step"
    by (intro ext) (simp add: viterbi_step_fp_def viterbi_step_def Let_def)
  have b: "viterbi_finish_fp (\<lambda>x. x) = viterbi_finish"
    by (intro ext) (simp add: viterbi_finish_fp_def viterbi_finish_def)
  show ?thesis
    unfolding viterbi_fp_def viterbi_def a b by (intro ext refl)
qed

lemma forward_fp_exact: "forward_fp (\<lambda>x. x) = forward"
  by (intro ext) (simp add: forward_fp_def forward_def viterbi_fp_exact)

lemma pow2_pos: "0 < pow2 e"
  by (simp add: pow2_def)

lemma round32_zero: "round32 0 = 0"
proof -
  have "binade n 0 e = e" for n e
    using pow2_pos[of e] by (cases n) (simp_all add: not_le)
  then show ?thesis by (simp add: round32_def round_half_even_def)
qed

lemma round32_values:
  "round32 1 = 1" "round32 (- 1) = - 1" "round32 (- 1000000) = - 1000000"
  "round32 15777216 = 15777216" "round32 15777218 = 15777218"
  "round32 16777216 = 16777216" "round32 16777217 = 16777216"
  "round32 16777218 = 16777218" "round32 16777219 = 16777220"
  "round32 16777220 = 16777220"
  by code_simp+

subsection \<open>The claims about the CRF layer\<close>

lemma path_score_spec:
  assumes "length t = L" "0 < L"
  shows "path_score crf (slices feats b 0 L) t = sequence_score_spec crf feats b t"
proof -
  have "map (\<lambda>i. t ! i) [0..<L] = t" unfolding assms(1)[symmetric] by (rule map_nth)
  then show ?thesis
    using score_sums_path_score[OF assms(2), of "at3 feats b" "\<lambda>i. t ! i" crf] assms(1)
    by (simp add: slices_def sequence_score_spec_def)
qed

text \<open>
  C1 (as amended). Over exact real arithmetic: for a well-formed store and an
  emission tensor of shape \<open>[B, L, num_tags]\<close> with \<open>L > 0\<close>, the decoder returns
  a tag tensor of shape \<open>[B, L]\<close> with tags in \<open>[0, num_tags)\<close>. For every example
  \<open>b\<close> the decoded row has the maximal score (emissions, transitions, start and
  stop) among all tag sequences of length \<open>L\<close> over \<open>[0, num_tags)\<close>. The same holds
  for the scores as \<open>_sequence_score\<close> computes them: whenever it returns the scores
  \<open>s\<close> of a tag tensor of shape \<open>[B, L]\<close>, it returns scores \<open>s'\<close> of the decoded
  tensor too, and \<open>s[b] \<le> s'[b]\<close> for every example.
\<close>

theorem viterbi_optimal:
  assumes "CRF_ok crf" and "shape feats = [B, L, num_tags crf]" and "0 < L"
  shows "\<exists>out. forward crf feats = Inr out \<and> shape out = [B, L] \<and> tensor_ok out \<and>
           (\<forall>x\<in>set (data out). 0 \<le> x \<and> x < int (num_tags crf)) \<and>
           (\<forall>b t. b < B \<longrightarrow> length t = L \<longrightarrow> (\<forall>x\<in>set t. x < num_tags crf) \<longrightarrow>
                  sequence_score_spec crf feats b t
                    \<le> sequence_score_spec crf feats b (tag_row out b)) \<and>
           (\<forall>tags s. shape tags = [B, L] \<longrightarrow> tensor_ok tags \<longrightarrow>
                  sequence_score crf feats tags = Inr s \<longrightarrow>
                  (\<exists>s'. sequence_score crf feats out = Inr s' \<and> (\<forall>b<B. s ! b \<le> s' ! b)))"
proof -
  have C: "0 < num_tags crf" using assms(1) by (simp add: CRF_ok_def)
  from viterbi_output[OF C assms(2,3)] obtain out where
    out: "viterbi crf feats = Inr out" and sh: "shape out = [B, L]" and ok: "tensor_ok out"
    and rng: "\<forall>x\<in>set (data out). 0 \<le> x \<and> x < int (num_tags crf)"
    and row: "\<And>b. b < B \<Longrightarrow> tag_row out b = viterbi_path crf feats b L"
    by blast
  have fw: "forward crf feats = Inr out" using out assms(2) by (simp add: forward_def)
  have best: "path_score crf (slices feats b 0 L) t
                \<le> path_score crf (slices feats b 0 L) (tag_row out b)"
    if "b < B" "length t = L" "\<forall>x\<in>set t. x < num_tags crf" for b t
    using viterbi_path_optimal(3)[OF C assms(3) that(2,3), of feats b] row[OF that(1)] by simp
  have best_spec: "sequence_score_spec crf feats b t
                     \<le> sequence_score_spec crf feats b (tag_row out b)"
    if "b < B" "length t = L" "\<forall>x\<in>set t. x < num_tags crf" for b t
  proof -
    have "length (tag_row out b) = L" using sh by (simp add: tag_row_def)
    then show ?thesis
      using best[OF that] that(2) assms(3) by (simp add: path_score_spec)
  qed
  have cmp: "\<exists>s'. sequence_score crf feats out = Inr s' \<and> (\<forall>b<B. s ! b \<le> s' ! b)"
    if tsh: "shape tags = [B, L]" and tok: "tensor_ok tags"
      and ts: "sequence_score crf feats tags = Inr s" for tags s
  proof -
    note d = sequence_score_InrD[OF ts assms(2) tsh]
    have rng': "\<forall>x\<in>set (data out). 0 \<le> x \<and> x < int (num_tags crf) \<and> x < int (num_tags crf)"
      using rng by simp
    define s' where "s' = map (\<lambda>b. path_score crf (slices feats b 0 L)
                             (map (\<lambda>i. nat (at2 out b i)) [0..<L])) [0..<B]"
    have os: "sequence_score crf feats out = Inr s'"
      unfolding s'_def by (rule sequence_score_value[OF assms(2) sh d(1) rng'])
    have "s ! b \<le> s' ! b" if b: "b < B" for b
    proof -
      have tr: "\<forall>x\<in>set (data tags). 0 \<le> x \<and> x < int (num_tags crf)" using d(2) by simp
      have "s ! b = path_score crf (slices feats b 0 L) (tag_row tags b)"
        by (rule sequence_score_nth(2)[OF ts assms(2) tsh b])
      also have "\<dots> \<le> path_score crf (slices feats b 0 L) (tag_row out b)"
        using tag_row_in_range[OF tok tsh b tr] by (intro best[OF b]) simp_all
      also have "\<dots> = s' ! b"
        by (rule sequence_score_nth(2)[OF os assms(2) sh b, symmetric])
      finally show ?thesis .
    qed
    with os show ?thesis by blast
  qed
  from fw sh ok rng best_spec cmp show ?thesis by blast
qed



text \<open>
  C5 (as amended). Over exact real arithmetic: for a well-formed store, an emission
  tensor of shape \<open>[B, L, num_tags]\<close> with \<open>L > 0\<close> and an example \<open>b\<close>, the entry
  \<open>b\<close> of the partition function is at least the score of every tag path of length
  \<open>L\<close> over \<open>[0, num_tags)\<close>, and at least the entry \<open>b\<close> of every score vector
  that \<open>_sequence_score\<close> returns for a tag tensor of shape \<open>[B, L]\<close>.
\<close>

theorem partition_ge_sequence_score:
  assumes "CRF_ok crf" and "shape feats = [B, L, num_tags crf]" and "0 < L" and "b < B"
  shows "\<exists>z. partition_function crf feats = Inr z \<and> length z = B \<and>
             (\<forall>t. length t = L \<longrightarrow> (\<forall>x\<in>set t. x < num_tags crf) \<longrightarrow>
                   sequence_score_spec crf feats b t \<le> z ! b) \<and>
             (\<forall>tags s. shape tags = [B, L] \<longrightarrow> tensor_ok tags \<longrightarrow>
                   sequence_score crf feats tags = Inr s \<longrightarrow> s ! b \<le> z ! b)"
proof -
  let ?C = "num_tags crf"
  let ?z = "map (\<lambda>b. ln (\<Sum>t\<leftarrow>List.n_lists L [0..<?C].
                                 exp (path_score crf (slices feats b 0 L) t))) [0..<B]"
  have C: "0 < ?C" using assms(1) by (simp add: CRF_ok_def)
  have z: "partition_function crf feats = Inr ?z"
    by (rule partition_function_value[OF C assms(2,3)])
  have zb: "?z ! b = ln (\<Sum>t\<leftarrow>List.n_lists L [0..<?C]. exp (path_score crf (slices feats b 0 L) t))"
    using assms(4) by (simp del: n_lists.simps)
  have le: "path_score crf (slices feats b 0 L) t \<le> ?z ! b"
    if "length t = L" "\<forall>x\<in>set t. x < ?C" for t
    unfolding zb by (rule path_score_le_ln_sum[OF C that])
  have a: "sequence_score_spec crf feats b t \<le> ?z ! b"
    if "length t = L" "\<forall>x\<in>set t. x < ?C" for t
    using le[OF that] that(1) assms(3) by (simp only: path_score_spec)
  have c: "s ! b \<le> ?z ! b"
    if tsh: "shape tags = [B, L]" and tok: "tensor_ok tags"
      and ts: "sequence_score crf feats tags = Inr s" for tags s
  proof -
    note d = sequence_score_InrD[OF ts assms(2) tsh]
    have tr: "\<forall>x\<in>set (data tags). 0 \<le> x \<and> x < int ?C" using d(2) by simp
    have "s ! b = path_score crf (slices feats b 0 L) (tag_row tags b)"
      by (rule sequence_score_nth(2)[OF ts assms(2) tsh assms(4)])
    also have "\<dots> \<le> ?z ! b"
      using tag_row_in_range[OF tok tsh assms(4) tr] by (intro le) simp_all
    finally show ?thesis .
  qed
  have lz: "length ?z = B" by simp
  from z lz a c show ?thesis by blast
qed


lemma loss_of_results:
  assumes "shape feats = [B, L, C]" and "shape tags = [B, L]"
    and "sequence_score crf feats tags = Inr s"
    and "partition_function crf feats = Inr z"
  shows "length s = B \<and> length z = B \<and>
         loss crf feats tags =
           Inr (if B = 0 then None
                else Some (- ((\<Sum>b\<leftarrow>[0..<B]. s ! b - z ! b) / real B)))"
proof -
  have ls: "length s = B" by (rule sequence_score_nth(1)[OF assms(3,1,2)])
  have lz: "length z = B" by (rule partition_function_length[OF assms(4,1)])
  have m: "map2 (-) s z = map (\<lambda>b. s ! b - z ! b) [0..<B]" by (rule map2_nth[OF ls lz])
  have "loss crf feats tags = Inr (map_option uminus (mean (map (\<lambda>b. s ! b - z ! b) [0..<B])))"
    using assms by (simp add: loss_def m Let_def)
  then show ?thesis using ls lz by (simp add: mean_def)
qed

text \<open>
  C6. \<open>loss\<close> raises ValueError whenever feats is not of rank 3, tags is not of rank
  2, or the first two dimensions of feats differ from the shape of tags.
  \<open>_partition_function\<close> and \<open>_viterbi\<close> raise ValueError whenever feats is not of
  rank 3 or its last dimension differs from \<open>num_tags\<close>; this error is returned
  whatever else is wrong with the input, so it precedes the dynamic program.
\<close>

theorem shape_and_dimension_errors:
  "(length (shape feats) \<noteq> 3 \<or> length (shape tags) \<noteq> 2 \<or> take 2 (shape feats) \<noteq> shape tags
      \<longrightarrow> loss crf feats tags = Inl ValueError) \<and>
   (length (shape feats) \<noteq> 3 \<or> last (shape feats) \<noteq> num_tags crf
      \<longrightarrow> partition_function crf feats = Inl ValueError \<and> viterbi crf feats = Inl ValueError)"
proof -
  have a: "loss crf feats tags = Inl ValueError"
    if "length (shape feats) \<noteq> 3 \<or> length (shape tags) \<noteq> 2 \<or> take 2 (shape feats) \<noteq> shape tags"
    using that by (auto simp: loss_def)
  have b: "partition_function crf feats = Inl ValueError \<and> viterbi crf feats = Inl ValueError"
    if "length (shape feats) \<noteq> 3 \<or> last (shape feats) \<noteq> num_tags crf"
  proof (cases "length (shape feats) = 3")
    case True
    then obtain B L C where sh: "shape feats = [B, L, C]"
      by (auto simp: length_Suc_conv eval_nat_numeral)
    with that have "C \<noteq> num_tags crf" by simp
    then show ?thesis by (auto simp: partition_function_def viterbi_def sh)
  next
    case False
    then show ?thesis
      by (auto simp: partition_function_def viterbi_def split: list.splits)
  qed
  from a b show ?thesis by blast
qed


lemma example_ok:
  "CRF_ok example_crf" "shape example_feats = [1, 2, num_tags example_crf]"
  "shape single_feats = [1, 1, num_tags example_crf]"
  by (simp_all add: CRF_ok_def example_crf_def example_feats_def single_feats_def)

theorem viterbi_optimal_witness:
  "CRF_ok example_crf \<and> shape example_feats = [1, 2, num_tags example_crf] \<and>
   forward example_crf example_feats = Inr \<lparr>shape = [1, 2], data = [0, 1]\<rparr> \<and>
   sequence_score example_crf example_feats (tile 1 [1, 1]) = Inr [4] \<and>
   (\<exists>s'. sequence_score example_crf example_feats \<lparr>shape = [1, 2], data = [0, 1]\<rparr> = Inr s' \<and>
         4 \<le> s' ! 0)"
proof -
  have L: "(0::nat) < 2" by simp
  have fw: "forward example_crf example_feats = Inr \<lparr>shape = [1, 2], data = [0, 1]\<rparr>"
    by code_simp
  have sc: "sequence_score example_crf example_feats (tile 1 [1, 1]) = Inr [4]"
    by code_simp
  have tsh: "shape (tile 1 [1, 1]) = [1, 2]" by (simp add: tile_def)
  have tok: "tensor_ok (tile 1 [1, 1])" by (simp add: tile_def tensor_ok_def)
  from viterbi_optimal[OF example_ok(1,2) L] fw
  have "\<forall>tags s. shape tags = [1, 2] \<longrightarrow> tensor_ok tags \<longrightarrow>
          sequence_score example_crf example_feats tags = Inr s \<longrightarrow>
          (\<exists>s'. sequence_score example_crf example_feats \<lparr>shape = [1, 2], data = [0, 1]\<rparr> = Inr s' \<and>
                (\<forall>b<1. s ! b \<le> s' ! b))"
    by auto
  with tsh tok sc
  have "\<exists>s'. sequence_score example_crf example_feats \<lparr>shape = [1, 2], data = [0, 1]\<rparr> = Inr s' \<and>
             (\<forall>b<1. [4] ! b \<le> s' ! b)"
    by blast
  then have "\<exists>s'. sequence_score example_crf example_feats \<lparr>shape = [1, 2], data = [0, 1]\<rparr> = Inr s' \<and>
             4 \<le> s' ! 0"
    by auto
  with example_ok fw sc show ?thesis by blast
qed


theorem partition_ge_sequence_score_witness:
  "CRF_ok example_crf \<and> shape example_feats = [1, 2, num_tags example_crf] \<and>
   shape (tile 1 [0, 1]) = [1, 2] \<and> tensor_ok (tile 1 [0, 1]) \<and>
   sequence_score example_crf example_feats (tile 1 [0, 1]) = Inr [5] \<and>
   (\<exists>z. partition_function example_crf example_feats = Inr z \<and> 5 \<le> z ! 0)"
proof -
  have L: "(0::nat) < 2" and b: "(0::nat) < 1" by simp_all
  have tsh: "shape (tile 1 [0, 1]) = [1, 2]" by (simp add: tile_def)
  have tok: "tensor_ok (tile 1 [0, 1])" by (simp add: tile_def tensor_ok_def)
  have sc: "sequence_score example_crf example_feats (tile 1 [0, 1]) = Inr [5]"
    by code_simp
  from partition_ge_sequence_score[OF example_ok(1,2) L b] obtain z where
    z: "partition_function example_crf example_feats = Inr z"
      "\<And>tags s. shape tags = [1, 2] \<Longrightarrow> tensor_ok tags \<Longrightarrow>
             sequence_score example_crf example_feats tags = Inr s \<Longrightarrow> s ! 0 \<le> z ! 0"
    by blast
  from z(2)[OF tsh tok sc] have "5 \<le> z ! 0" by simp
  with example_ok tsh tok sc z(1) show ?thesis by blast
qed

theorem shape_and_dimension_errors_witness:
  "loss example_crf \<lparr>shape = [1, 2], data = [0, 0]\<rparr> (tile 1 [0, 1]) = Inl ValueError \<and>
   loss example_crf example_feats (tile 2 [0, 1]) = Inl ValueError \<and>
   partition_function example_crf \<lparr>shape = [1, 0, 3], data = []\<rparr> = Inl ValueError \<and>
   viterbi example_crf \<lparr>shape = [1, 0, 3], data = []\<rparr> = Inl ValueError"
proof -
  have a: "length (shape \<lparr>shape = [1, 2], data = [0, 0 :: real]\<rparr>) \<noteq> 3" by simp
  have b: "take 2 (shape example_feats) \<noteq> shape (tile 2 [0, 1])"
    by (simp add: example_feats_def tile_def)
  have c: "last (shape \<lparr>shape = [1, 0, 3], data = [] :: real list\<rparr>) \<noteq> num_tags example_crf"
    by (simp add: example_crf_def)
  show ?thesis
    using a b c
      shape_and_dimension_errors[of "\<lparr>shape = [1, 2], data = [0, 0]\<rparr>" "tile 1 [0, 1]" example_crf]
      shape_and_dimension_errors[of example_feats "tile 2 [0, 1]" example_crf]
      shape_and_dimension_errors[of "\<lparr>shape = [1, 0, 3], data = []\<rparr>" "tile 1 [0, 1]" example_crf]
    by blast
qed

lemma sequence_score_decomposition:
  assumes "shape feats = [B, L, C]" and "shape tags = [B, L]" and "2 \<le> L"
    and "\<forall>x\<in>set (data tags). 0 \<le> x \<and> x < int C \<and> x < int (num_tags crf)"
    and "b < B"
  shows "\<exists>s. sequence_score crf feats tags = Inr s \<and> length s = B \<and>
             s ! b = sequence_score_spec crf feats b (tag_row tags b)"
proof -
  have L: "0 < L" using assms(3) by simp
  have lr: "length (tag_row tags b) = L" using assms(2) by (simp add: tag_row_def)
  from sequence_score_value[OF assms(1-4)] obtain s where
    s: "sequence_score crf feats tags = Inr s" by blast
  from sequence_score_nth[OF s assms(1,2)] assms(5) lr L
  have "length s = B \<and> s ! b = sequence_score_spec crf feats b (tag_row tags b)"
    by (simp add: path_score_spec)
  with s show ?thesis by blast
qed

text \<open>
  C3. The decomposition holds for sequences of at least two positions (lemma
  \<open>sequence_score_decomposition\<close>). For a single position the
  code does not compute the score that the claim gives: \<open>tags.unfold(1, 2, 1)\<close>
  raises, so \<open>_sequence_score\<close> and with it \<open>loss\<close> fail, while the decoder and the
  partition function accept the same input.
\<close>

theorem sequence_score_single_position:
  "sequence_score example_crf single_feats (tile 1 [0]) = Inl TorchError \<and>
   sequence_score example_crf single_feats (tile 1 [1]) = Inl TorchError \<and>
   loss example_crf single_feats (tile 1 [0]) = Inl TorchError \<and>
   forward example_crf single_feats = Inr \<lparr>shape = [1, 1], data = [0]\<rparr> \<and>
   (\<exists>z. partition_function example_crf single_feats = Inr z)"
proof -
  have a: "sequence_score example_crf single_feats (tile 1 [0]) = Inl TorchError"
    "sequence_score example_crf single_feats (tile 1 [1]) = Inl TorchError"
    "forward example_crf single_feats = Inr \<lparr>shape = [1, 1], data = [0]\<rparr>"
    by code_simp+
  have l: "loss example_crf single_feats (tile 1 [0]) = Inl TorchError"
    using a(1) by (simp add: loss_def single_feats_def tile_def)
  have C: "0 < num_tags example_crf" by (simp add: example_crf_def)
  have L: "(0::nat) < 1" by simp
  from partition_function_value[OF C example_ok(3) L] a l show ?thesis by blast
qed

text \<open>
  The claim C1 as stated, with the scores as the program computes them, fails on
  float32 tensors: the decoder adds start potential, transition, emission and stop
  potential along the path, \<open>_sequence_score\<close> adds the emissions first, and the two
  orders round differently. For the parameters and emissions below the decoder
  returns the path \<open>[1, 1]\<close>, whose \<open>_sequence_score\<close> is \<open>16777218\<close>, while the
  path \<open>[0, 0]\<close> has the \<open>_sequence_score\<close> \<open>16777220\<close>.
\<close>

theorem viterbi_float32_counterexample:
  "forward_fp round32 float32_crf float32_feats = Inr \<lparr>shape = [1, 2], data = [1, 1]\<rparr> \<and>
   sequence_score_fp round32 float32_crf float32_feats \<lparr>shape = [1, 2], data = [1, 1]\<rparr>
     = Inr [16777218] \<and>
   sequence_score_fp round32 float32_crf float32_feats \<lparr>shape = [1, 2], data = [0, 0]\<rparr>
     = Inr [16777220] \<and>
   round32 16777218 = 16777218 \<and> round32 (- 1000000) = - 1000000 \<and>
   round32 1 = 1 \<and> round32 (- 1) = - 1 \<and> round32 0 = 0"
proof -
  have a: "forward_fp round32 float32_crf float32_feats = Inr \<lparr>shape = [1, 2], data = [1, 1]\<rparr>"
    by (simp add: forward_fp_def viterbi_fp_def viterbi_step_fp_def viterbi_finish_fp_def
        max_with_index_def backtrack_def float32_crf_def float32_feats_def at3_def
        round32_zero round32_values eval_nat_numeral)
  have b: "sequence_score_fp round32 float32_crf float32_feats \<lparr>shape = [1, 2], data = [1, 1]\<rparr>
             = Inr [16777218]"
    by (simp add: sequence_score_fp_def float32_crf_def float32_feats_def at2_def at3_def
        fsum_def round32_zero round32_values eval_nat_numeral)
  have c: "sequence_score_fp round32 float32_crf float32_feats \<lparr>shape = [1, 2], data = [0, 0]\<rparr>
             = Inr [16777220]"
    by (simp add: sequence_score_fp_def float32_crf_def float32_feats_def at2_def at3_def
        fsum_def round32_zero round32_values eval_nat_numeral)
  from a b c show ?thesis by (simp add: round32_zero round32_values)
qed

text \<open>
  The claim C5 as stated fails on float32 tensors: with one tag, the start potential
  \<open>-1\<close> and the emissions \<open>16777218\<close> and \<open>1\<close>, the partition function is
  \<open>16777216\<close> and the \<open>_sequence_score\<close> of the only path is \<open>16777220\<close>.
\<close>

theorem partition_float32_counterexample:
  "partition_function_fp round32 float32_crf1 float32_feats1 = Inr [16777216] \<and>
   sequence_score_fp round32 float32_crf1 float32_feats1 \<lparr>shape = [1, 2], data = [0, 0]\<rparr>
     = Inr [16777220] \<and>
   round32 16777218 = 16777218 \<and> round32 1 = 1 \<and> round32 (- 1) = - 1 \<and> round32 0 = 0"
proof -
  have a: "partition_function_fp round32 float32_crf1 float32_feats1 = Inr [16777216]"
    by (simp add: partition_function_fp_def forward_step_fp_def forward_finish_fp_def
        log_sum_exp_fp_def fsum_def float32_crf1_def float32_feats1_def at3_def
        round32_zero round32_values eval_nat_numeral)
  have b: "sequence_score_fp round32 float32_crf1 float32_feats1 \<lparr>shape = [1, 2], data = [0, 0]\<rparr>
             = Inr [16777220]"
    by (simp add: sequence_score_fp_def float32_crf1_def float32_feats1_def at2_def at3_def
        fsum_def round32_zero round32_values eval_nat_numeral)
  from a b show ?thesis by (simp add: round32_zero round32_values)
qed

lemma loss_value:
  assumes "CRF_ok crf" and "shape feats = [B, L, num_tags crf]" and "shape tags = [B, L]"
    and "2 \<le> L" and "\<forall>x\<in>set (data tags). 0 \<le> x \<and> x < int (num_tags crf)"
  shows "\<exists>s z. sequence_score crf feats tags = Inr s \<and> partition_function crf feats = Inr z \<and>
               length s = B \<and> length z = B \<and>
               loss crf feats tags =
                 Inr (if B = 0 then None
                      else Some (- ((\<Sum>b\<leftarrow>[0..<B]. s ! b - z ! b) / real B)))"
proof -
  have C: "0 < num_tags crf" using assms(1) by (simp add: CRF_ok_def)
  have L: "0 < L" using assms(4) by simp
  have rng: "\<forall>x\<in>set (data tags). 0 \<le> x \<and> x < int (num_tags crf) \<and> x < int (num_tags crf)"
    using assms(5) by simp
  from sequence_score_value[OF assms(2,3,4) rng] obtain s where
    s: "sequence_score crf feats tags = Inr s" by blast
  from partition_function_value[OF C assms(2) L] obtain z where
    z: "partition_function crf feats = Inr z" by blast
  from loss_of_results[OF assms(2,3) s z] s z show ?thesis by blast
qed

text \<open>
  C4. For sequences of at least two positions \<open>loss\<close> is the negative of the mean
  over the batch of \<open>_sequence_score - _partition_function\<close> (lemma \<open>loss_value\<close>).
  For a well-shaped input with a single position and its tag in range, \<open>loss\<close>
  returns no value: the shape checks pass, \<open>_sequence_score\<close> raises in
  \<open>tags.unfold(1, 2, 1)\<close>, and the partition function of the same input exists.
\<close>

theorem loss_single_position:
  "length (shape single_feats) = 3 \<and> length (shape (tile 1 [0])) = 2 \<and>
   take 2 (shape single_feats) = shape (tile 1 [0]) \<and>
   last (shape single_feats) = num_tags example_crf \<and>
   data (tile 1 [0]) = [0] \<and>
   loss example_crf single_feats (tile 1 [0]) = Inl TorchError \<and>
   (\<exists>z. partition_function example_crf single_feats = Inr z)"
proof -
  have s: "sequence_score example_crf single_feats (tile 1 [0]) = Inl TorchError"
    by code_simp
  have l: "loss example_crf single_feats (tile 1 [0]) = Inl TorchError"
    using s by (simp add: loss_def single_feats_def tile_def)
  have C: "0 < num_tags example_crf" by (simp add: example_crf_def)
  have L: "(0::nat) < 1" by simp
  from partition_function_value[OF C example_ok(3) L] l show ?thesis
    by (simp add: single_feats_def tile_def example_crf_def)
qed

text \<open>
  C7. Constructing the store with a negative \<open>num_tags\<close> raises in the allocation of
  the transition matrix, with \<open>num_tags = 0\<close> it raises ZeroDivisionError in the
  Xavier initialisation; with a positive \<open>num_tags\<close> it succeeds, whatever the random
  draws, and gives a well-formed store of that many tags.
\<close>

theorem init_requires_positive_num_tags:
  "(n < 0 \<longrightarrow> CRF_init n mem draw_start draw_stop draw_xavier = Inl TorchError) \<and>
   (n = 0 \<longrightarrow> CRF_init n mem draw_start draw_stop draw_xavier = Inl ZeroDivisionError) \<and>
   (0 < n \<longrightarrow> (\<exists>crf. CRF_init n mem draw_start draw_stop draw_xavier = Inr crf \<and>
                      CRF_ok crf \<and> int (num_tags crf) = n))"
proof (intro conjI impI)
  assume "n < 0"
  then show "CRF_init n mem draw_start draw_stop draw_xavier = Inl TorchError"
    by (simp add: CRF_init_def torch_Tensor_def)
next
  assume "n = 0"
  then show "CRF_init n mem draw_start draw_stop draw_xavier = Inl ZeroDivisionError"
    by (simp add: CRF_init_def torch_Tensor_def torch_randn_def xavier_normal_def)
next
  assume "0 < n"
  then show "\<exists>crf. CRF_init n mem draw_start draw_stop draw_xavier = Inr crf \<and>
                   CRF_ok crf \<and> int (num_tags crf) = n"
    by (simp add: CRF_init_def torch_Tensor_def torch_randn_def xavier_normal_def Let_def
          CRF_ok_def list_all_iff)
qed

theorem init_requires_positive_num_tags_witness:
  "CRF_init (- 1) (\<lambda>i j. 0) (\<lambda>i. 0) (\<lambda>i. 0) (\<lambda>i j. 0) = Inl TorchError \<and>
   CRF_init 0 (\<lambda>i j. 0) (\<lambda>i. 0) (\<lambda>i. 0) (\<lambda>i j. 0) = Inl ZeroDivisionError \<and>
   (\<exists>crf. CRF_init 2 (\<lambda>i j. 0) (\<lambda>i. 0) (\<lambda>i. 0) (\<lambda>i j. 0) = Inr crf \<and>
          CRF_ok crf \<and> int (num_tags crf) = 2)"
  using init_requires_positive_num_tags[of "- 1" "\<lambda>i j. 0" "\<lambda>i. 0" "\<lambda>i. 0" "\<lambda>i j. 0"]
    init_requires_positive_num_tags[of 0 "\<lambda>i j. 0" "\<lambda>i. 0" "\<lambda>i. 0" "\<lambda>i j. 0"]
    init_requires_positive_num_tags[of 2 "\<lambda>i j. 0" "\<lambda>i. 0" "\<lambda>i. 0" "\<lambda>i j. 0"]
  by simp

end
